theory Spec2Isabelle
  imports Complex_Main "HOL-Library.Multiset"
begin

section \<open>Floating-point values\<close>

text \<open>
  The program computes with IEEE doubles (Python floats and numpy float64).  A double is
  modelled as a real number or one of the three special values; rounding, overflow and
  the sign of zero are not modelled.  The special values are kept because the program
  relies on them: \<open>np.nan\<close> marks undefined parameters and undefined variances,
  \<open>np.inf\<close> is the error of a failed fit.
\<close>

datatype pyfloat = Fin real | PInf | NInf | NaN

text \<open>
  The real numbers that are finite doubles: an integer of magnitude below \<open>2^53\<close>
  times a power of two with an exponent from \<open>-1074\<close> to \<open>971\<close>.  Comparisons of
  doubles are exact.  The thresholds of the classifier, whose boundary values matter one
  by one, are given as the doubles Python reads the literals as; the significance level
  \<open>0.05\<close> is written as the decimal fraction, which makes no difference on doubles
  (\<open>significance_level_exact\<close> below).
\<close>

definition is_double :: "real \<Rightarrow> bool" where
  "is_double x =
     (\<exists>(m::int) (n::nat). \<bar>m\<bar> < 2 ^ 53
        \<and> ((n \<le> 971 \<and> x = real_of_int m * 2 ^ n) \<or> (n \<le> 1074 \<and> x = real_of_int m / 2 ^ n)))"

fun isnan :: "pyfloat \<Rightarrow> bool" where
  "isnan NaN = True"
| "isnan _ = False"

text \<open>Comparisons: every comparison with NaN is false, except \<open>!=\<close>, which is true.\<close>

fun flt :: "pyfloat \<Rightarrow> pyfloat \<Rightarrow> bool" where
  "flt NaN _ = False"
| "flt _ NaN = False"
| "flt (Fin a) (Fin b) = (a < b)"
| "flt (Fin a) PInf = True"
| "flt (Fin a) NInf = False"
| "flt PInf _ = False"
| "flt NInf (Fin b) = True"
| "flt NInf PInf = True"
| "flt NInf NInf = False"

fun feq :: "pyfloat \<Rightarrow> pyfloat \<Rightarrow> bool" where
  "feq (Fin a) (Fin b) = (a = b)"
| "feq PInf PInf = True"
| "feq NInf NInf = True"
| "feq _ _ = False"

definition fle :: "pyfloat \<Rightarrow> pyfloat \<Rightarrow> bool" where
  "fle a b = (flt a b \<or> feq a b)"

definition fgt :: "pyfloat \<Rightarrow> pyfloat \<Rightarrow> bool" where
  "fgt a b = flt b a"

definition fge :: "pyfloat \<Rightarrow> pyfloat \<Rightarrow> bool" where
  "fge a b = fle b a"

definition fne :: "pyfloat \<Rightarrow> pyfloat \<Rightarrow> bool" where
  "fne a b = (\<not> feq a b)"

text \<open>Truth value of a float in a condition: \<open>bool(x)\<close> is \<open>x != 0\<close>, so NaN is true.\<close>

definition truthy :: "pyfloat \<Rightarrow> bool" where
  "truthy x = fne x (Fin 0)"

fun fneg :: "pyfloat \<Rightarrow> pyfloat" where
  "fneg (Fin a) = Fin (- a)"
| "fneg PInf = NInf"
| "fneg NInf = PInf"
| "fneg NaN = NaN"

fun fadd :: "pyfloat \<Rightarrow> pyfloat \<Rightarrow> pyfloat" where
  "fadd NaN _ = NaN"
| "fadd _ NaN = NaN"
| "fadd (Fin a) (Fin b) = Fin (a + b)"
| "fadd (Fin a) PInf = PInf"
| "fadd (Fin a) NInf = NInf"
| "fadd PInf NInf = NaN"
| "fadd PInf _ = PInf"
| "fadd NInf PInf = NaN"
| "fadd NInf _ = NInf"

definition fsub :: "pyfloat \<Rightarrow> pyfloat \<Rightarrow> pyfloat" where
  "fsub a b = fadd a (fneg b)"

text \<open>The sign of a value that is not NaN, for products and quotients with an infinity.\<close>

fun fsign :: "pyfloat \<Rightarrow> int" where
  "fsign (Fin a) = (if a < 0 then - 1 else if a = 0 then 0 else 1)"
| "fsign PInf = 1"
| "fsign NInf = - 1"
| "fsign NaN = 0"

definition signed_inf :: "int \<Rightarrow> pyfloat" where
  "signed_inf s = (if s < 0 then NInf else if s = 0 then NaN else PInf)"

fun fmul :: "pyfloat \<Rightarrow> pyfloat \<Rightarrow> pyfloat" where
  "fmul NaN _ = NaN"
| "fmul _ NaN = NaN"
| "fmul (Fin a) (Fin b) = Fin (a * b)"
| "fmul a b = signed_inf (fsign a * fsign b)"

text \<open>
  Division of numpy scalars does not raise: a nonzero value over zero is an infinity,
  zero over zero and infinity over infinity are NaN.
\<close>

fun fdiv :: "pyfloat \<Rightarrow> pyfloat \<Rightarrow> pyfloat" where
  "fdiv NaN _ = NaN"
| "fdiv _ NaN = NaN"
| "fdiv (Fin a) (Fin b) = (if b = 0 then signed_inf (fsign (Fin a)) else Fin (a / b))"
| "fdiv (Fin a) _ = Fin 0"
| "fdiv a (Fin b) = signed_inf (fsign a * (if b < 0 then - 1 else 1))"
| "fdiv _ _ = NaN"

definition fsum :: "pyfloat list \<Rightarrow> pyfloat" where
  "fsum xs = foldl fadd (Fin 0) xs"

section \<open>Rows of the input table\<close>

text \<open>
  A row handed to the fitter is a pandas Series: the measurements of one feature, each
  under its column name.  Column names have the form \<open>ZT<digits>_C<digits>\<close>; a column
  is kept as the two numbers of its name, so \<open>ZT4_C2\<close> is \<open>\<lparr>zt = 4, rep = 2\<rparr>\<close>.
  Both places that read a name (the regular expression of \<open>calculate_variances\<close> and
  the \<open>split\<close> of \<open>fit_best_waveform\<close>) obtain \<open>zt\<close> from such a name.

  Three simplifications.  A timepoint is a natural number of any size, where the program
  converts it to a 64-bit integer and raises on a timepoint of \<open>2^63\<close> or more.  The
  column names of a row are taken to be distinct, as those of a table read from a file
  are; selecting a column by a repeated name would return all columns of that name.  The
  rescaling of the timepoints to radians is exact real arithmetic with the number
  \<open>pi\<close>.
\<close>

record column =
  zt :: nat
  rep :: nat

type_synonym series = "(column \<times> pyfloat) list"

section \<open>Variance estimator\<close>

text \<open>
  \<open>Series.var(ddof=1)\<close> of pandas: NaN entries are skipped; with \<open>count\<close> values left
  the result is NaN when \<open>count \<le> 1\<close>, and otherwise the sum of the squared deviations
  from the mean over \<open>count - 1\<close>.
\<close>

definition var_ddof1 :: "pyfloat list \<Rightarrow> pyfloat" where
  "var_ddof1 xs =
     (let vals = filter (\<lambda>v. \<not> isnan v) xs;
          count = length vals
      in if count \<le> 1 then NaN
         else let avg = fdiv (fsum vals) (Fin (real count));
                  sqr = map (\<lambda>v. fmul (fsub avg v) (fsub avg v)) vals
              in fdiv (fsum sqr) (Fin (real (count - 1))))"

definition zt_times :: "series \<Rightarrow> nat list" where
  "zt_times data = map (\<lambda>(c, v). zt c) data"

text \<open>\<open>np.unique\<close>: the distinct values in ascending order.\<close>

definition np_unique :: "nat list \<Rightarrow> nat list" where
  "np_unique xs = sort (remdups xs)"

text \<open>
  The dictionary \<open>variances\<close> is kept as an association list from the integer timepoint
  to its variance, in the order the loop fills it.
\<close>

definition calculate_variances :: "series \<Rightarrow> (nat \<times> pyfloat) list" where
  "calculate_variances data =
     map (\<lambda>z. let zt_columns = filter (\<lambda>(c, v). zt c = z) data;
                   zt_var = var_ddof1 (map snd zt_columns)
               in (z, if truthy zt_var then zt_var else Fin 0))
         (np_unique (zt_times data))"

section \<open>Weights\<close>

text \<open>
  \<open>tp in variances\<close> and \<open>variances[tp]\<close> with a float \<open>tp\<close>: a float finds an integer
  key exactly when the two are equal as numbers.
\<close>

fun dict_get :: "(nat \<times> pyfloat) list \<Rightarrow> pyfloat \<Rightarrow> pyfloat option" where
  "dict_get [] tp = None"
| "dict_get ((k, v) # kvs) tp = (if feq (Fin (real k)) tp then Some v else dict_get kvs tp)"

text \<open>Lines 116 and 117: the timepoint of every column, rescaled to radians.\<close>

definition timepoints :: "series \<Rightarrow> pyfloat list" where
  "timepoints df_row = map (\<lambda>(c, v). fmul (fdiv (Fin (real (zt c))) (Fin 24)) (Fin (2 * pi))) df_row"

definition amplitudes :: "series \<Rightarrow> pyfloat list" where
  "amplitudes df_row = map snd df_row"

text \<open>Line 120, with \<open>variances\<close> of line 119.\<close>

definition weights :: "series \<Rightarrow> pyfloat list" where
  "weights df_row =
     (let variances = calculate_variances df_row
      in map (\<lambda>tp. fadd (case dict_get variances tp of
                            Some v \<Rightarrow> if fne v (Fin 0) then fdiv (Fin 1) v else Fin 0
                          | None \<Rightarrow> Fin 0)
                         (Fin 0.000001))
             (timepoints df_row))"

section \<open>Rhythm classifier\<close>

text \<open>
  The thresholds are the doubles that Python reads the literals \<open>0.03\<close> and \<open>0.15\<close>
  as: \<open>0.03\<close> is \<open>8646911284551352 / 2^58\<close> and \<open>0.15\<close> is
  \<open>5404319552844595 / 2^55\<close>, both a little below the decimal fraction.  \<open>-0.03\<close> and
  \<open>-0.15\<close> are the negations of these doubles.
\<close>

definition double_0_03 :: real where
  "double_0_03 = 1080863910568919 / 2 ^ 55"

definition double_0_15 :: real where
  "double_0_15 = 5404319552844595 / 2 ^ 55"

definition categorize_rhythm :: "pyfloat \<Rightarrow> string" where
  "categorize_rhythm gamma =
     (if fge (Fin double_0_15) gamma \<and> fge gamma (Fin double_0_03) then ''damped''
      else if fle (Fin (- double_0_15)) gamma \<and> fle gamma (Fin (- double_0_03)) then ''forced''
      else if fle (Fin (- double_0_03)) gamma \<and> fle gamma (Fin double_0_03) then ''harmonic''
      else if fgt gamma (Fin double_0_15) then ''overexpressed'' else ''repressed'')"

text \<open>
  The doubles of the literals \<open>0.029999\<close> and \<open>0.1500001\<close>, and the double that follows
  the double \<open>0.03\<close>, which is the least double not below the decimal fraction \<open>3/100\<close>.
\<close>

definition double_0_029999 :: real where
  "double_0_029999 = 8646623054175201 / 2 ^ 58"

definition double_0_1500001 :: real where
  "double_0_1500001 = 5404323155724297 / 2 ^ 55"

definition double_after_0_03 :: real where
  "double_after_0_03 = 8646911284551353 / 2 ^ 58"

section \<open>Waveform model library\<close>

text \<open>\<open>np.exp\<close>, \<open>np.cos\<close>, \<open>np.sin\<close> and \<open>np.sinc\<close> on one value.\<close>

fun fexp :: "pyfloat \<Rightarrow> pyfloat" where
  "fexp (Fin a) = Fin (exp a)"
| "fexp PInf = PInf"
| "fexp NInf = Fin 0"
| "fexp NaN = NaN"

fun fcos :: "pyfloat \<Rightarrow> pyfloat" where
  "fcos (Fin a) = Fin (cos a)"
| "fcos _ = NaN"

fun fsin :: "pyfloat \<Rightarrow> pyfloat" where
  "fsin (Fin a) = Fin (sin a)"
| "fsin _ = NaN"

definition np_sinc :: "pyfloat \<Rightarrow> pyfloat" where
  "np_sinc x =
     (let y = fmul (Fin pi) (if feq x (Fin 0) then Fin (1 / 10 ^ 20) else x)
      in fdiv (fsin y) y)"

text \<open>The four model functions at one time value \<open>t\<close>; the program applies them to the
  whole array of timepoints at once.\<close>

definition extended_harmonic_oscillator ::
  "pyfloat \<Rightarrow> pyfloat \<Rightarrow> pyfloat \<Rightarrow> pyfloat \<Rightarrow> pyfloat \<Rightarrow> pyfloat \<Rightarrow> pyfloat" where
  "extended_harmonic_oscillator t A gamma omega phi y =
     fadd (fmul (fmul A (fexp (fmul gamma t))) (fcos (fadd (fmul omega t) phi))) y"

definition pseudo_square_wave ::
  "pyfloat \<Rightarrow> pyfloat \<Rightarrow> pyfloat \<Rightarrow> pyfloat \<Rightarrow> pyfloat \<Rightarrow> pyfloat \<Rightarrow> pyfloat" where
  "pseudo_square_wave t A gamma omega_c phi y =
     fadd (fmul (fmul A (fexp (fmul gamma t)))
                (fadd (fsin (fadd (fmul omega_c t) phi))
                      (fmul (Fin 0.25) (fsin (fadd (fmul omega_c (fmul t (Fin 3))) phi)))))
          y"

definition pseudo_cycloid_wave ::
  "pyfloat \<Rightarrow> pyfloat \<Rightarrow> pyfloat \<Rightarrow> pyfloat \<Rightarrow> pyfloat \<Rightarrow> pyfloat \<Rightarrow> pyfloat" where
  "pseudo_cycloid_wave t A gamma omega_c phi y =
     fadd (fmul (fmul A (fexp (fmul gamma t)))
                (fneg (fadd (fcos (fadd (fmul (fmul (Fin 2) omega_c) t) phi))
                            (fmul (Fin 4) (fcos (fadd (fmul omega_c t) phi))))))
          y"

definition transient_impulse ::
  "pyfloat \<Rightarrow> pyfloat \<Rightarrow> pyfloat \<Rightarrow> pyfloat \<Rightarrow> pyfloat \<Rightarrow> pyfloat" where
  "transient_impulse t tc A w y = fadd (fmul A (np_sinc (fdiv (fsub t tc) w))) y"

datatype model_fn =
  Extended_harmonic_oscillator | Pseudo_square_wave | Pseudo_cycloid_wave | Transient_impulse

datatype py_error = IndexError | ValueError | TypeError | RuntimeError

text \<open>
  The call \<open>f(timepoints, *params)\<close>: it raises TypeError unless \<open>params\<close> has as many
  entries as the function has parameters after \<open>t\<close>.
\<close>

fun call_model :: "model_fn \<Rightarrow> pyfloat list \<Rightarrow> pyfloat list \<Rightarrow> py_error + pyfloat list" where
  "call_model Extended_harmonic_oscillator ts [A, gamma, omega, phi, y] =
     Inr (map (\<lambda>t. extended_harmonic_oscillator t A gamma omega phi y) ts)"
| "call_model Pseudo_square_wave ts [A, gamma, omega_c, phi, y] =
     Inr (map (\<lambda>t. pseudo_square_wave t A gamma omega_c phi y) ts)"
| "call_model Pseudo_cycloid_wave ts [A, gamma, omega_c, phi, y] =
     Inr (map (\<lambda>t. pseudo_cycloid_wave t A gamma omega_c phi y) ts)"
| "call_model Transient_impulse ts [tc, A, w, y] =
     Inr (map (\<lambda>t. transient_impulse t tc A w y) ts)"
| "call_model _ _ _ = Inl TypeError"

section \<open>The library functions the program calls\<close>

text \<open>
  The arguments of one call of \<open>scipy.optimize.curve_fit\<close>, as the program passes them.
\<close>

record fit_args =
  model :: model_fn
  xdata :: "pyfloat list"
  ydata :: "pyfloat list"
  bounds :: "pyfloat list \<times> pyfloat list"
  sigma :: "pyfloat list"
  p0 :: "pyfloat list"
  maxfev :: nat

text \<open>
  The solver, the rank-correlation test, the multiple-testing correction and numpy's
  \<open>argsort\<close> are not part of the program.  They are parameters of the model:
  \<^item> \<open>curve_fit\<close> returns the optimal parameters and their covariance, or raises;
  \<^item> \<open>kendalltau\<close> returns the statistic and its p-value;
  \<^item> \<open>multipletests\<close> returns the corrected p-values (method \<open>fdr_tsbh\<close>);
  \<^item> \<open>argsort\<close> returns the positions that sort an array without NaN, by the default
    algorithm (\<open>quicksort\<close>).
  Only the solver is given a way to raise: the program catches what it raises.  The
  other three are taken to return on every input.
\<close>

record library =
  curve_fit :: "fit_args \<Rightarrow> py_error + (pyfloat list \<times> pyfloat list list)"
  kendalltau :: "pyfloat list \<Rightarrow> pyfloat list \<Rightarrow> pyfloat \<times> pyfloat"
  multipletests :: "pyfloat list \<Rightarrow> pyfloat list"
  argsort :: "pyfloat list \<Rightarrow> nat list"

section \<open>numpy reductions\<close>

definition np_mean :: "pyfloat list \<Rightarrow> pyfloat" where
  "np_mean xs = fdiv (fsum xs) (Fin (real (length xs)))"

text \<open>\<open>np.max\<close> and \<open>np.min\<close>: NaN wins; an empty array raises ValueError.\<close>

definition fmax :: "pyfloat \<Rightarrow> pyfloat \<Rightarrow> pyfloat" where
  "fmax a b = (if isnan a then a else if isnan b then b else if flt a b then b else a)"

definition fmin :: "pyfloat \<Rightarrow> pyfloat \<Rightarrow> pyfloat" where
  "fmin a b = (if isnan a then a else if isnan b then b else if flt b a then b else a)"

fun np_max :: "pyfloat list \<Rightarrow> py_error + pyfloat" where
  "np_max [] = Inl ValueError"
| "np_max (x # xs) = Inr (foldl fmax x xs)"

fun np_min :: "pyfloat list \<Rightarrow> py_error + pyfloat" where
  "np_min [] = Inl ValueError"
| "np_min (x # xs) = Inr (foldl fmin x xs)"

text \<open>
  \<open>np.argmin\<close>, as numpy's loop runs: the position of the first NaN if there is one,
  and of the first smallest value otherwise.  \<open>argmin_loop mp min_ind i rest\<close> is the
  state of the loop at position \<open>i\<close>, with the smallest value \<open>mp\<close> so far at \<open>min_ind\<close>.
\<close>

fun argmin_loop :: "pyfloat \<Rightarrow> nat \<Rightarrow> nat \<Rightarrow> pyfloat list \<Rightarrow> nat" where
  "argmin_loop mp min_ind i [] = min_ind"
| "argmin_loop mp min_ind i (x # xs) =
     (if \<not> fge x mp
      then (if isnan x then i else argmin_loop x i (Suc i) xs)
      else argmin_loop mp min_ind (Suc i) xs)"

fun np_argmin :: "pyfloat list \<Rightarrow> py_error + nat" where
  "np_argmin [] = Inl ValueError"
| "np_argmin (x # xs) = Inr (if isnan x then 0 else argmin_loop x 0 1 xs)"

section \<open>Multi-model fitter\<close>

text \<open>
  The result of fitting one model: its parameters and covariance (or the marker
  \<open>np.nan\<close>), the fitted values and the sum of squared residuals.
\<close>

datatype parameters = Nan_params | Params "pyfloat list"

datatype covariance = Nan_cov | Cov "pyfloat list list"

record model_fit =
  params :: parameters
  cov :: covariance
  fitted_values :: "pyfloat list"
  sse :: pyfloat

text \<open>The arguments of the four calls of \<open>curve_fit\<close>; \<open>amax\<close> and \<open>amin\<close> are
  \<open>np.max(amplitudes)\<close> and \<open>np.min(amplitudes)\<close>.\<close>

definition harmonic_args :: "series \<Rightarrow> pyfloat \<Rightarrow> fit_args" where
  "harmonic_args df_row amax =
     \<lparr>model = Extended_harmonic_oscillator,
      xdata = timepoints df_row,
      ydata = amplitudes df_row,
      bounds = ([Fin 0, Fin (- 0.5), Fin 0.25, Fin (- pi), fneg amax],
                [amax, Fin 0.5, Fin 1, Fin pi, amax]),
      sigma = weights df_row,
      p0 = [np_mean (amplitudes df_row), Fin 0, Fin 0.5, Fin 0,
            fdiv (np_mean (amplitudes df_row)) (Fin 2)],
      maxfev = 1000000\<rparr>"

definition square_args :: "series \<Rightarrow> pyfloat \<Rightarrow> fit_args" where
  "square_args df_row amax =
     \<lparr>model = Pseudo_square_wave,
      xdata = timepoints df_row,
      ydata = amplitudes df_row,
      bounds = ([Fin 0, Fin (- 0.5), Fin 0.25, Fin (- pi), fneg amax],
                [amax, Fin 0.5, Fin 1, Fin pi, amax]),
      sigma = weights df_row,
      p0 = [np_mean (amplitudes df_row), Fin 0, Fin 0.5, Fin 0, np_mean (amplitudes df_row)],
      maxfev = 1000000\<rparr>"

definition cycloid_args :: "series \<Rightarrow> pyfloat \<Rightarrow> fit_args" where
  "cycloid_args df_row amax =
     \<lparr>model = Pseudo_cycloid_wave,
      xdata = timepoints df_row,
      ydata = amplitudes df_row,
      bounds = ([Fin 0, Fin (- 0.5), Fin 0.2, Fin (- pi), fneg amax],
                [amax, Fin 0.5, Fin 1, Fin pi, fmul (Fin 4) amax]),
      sigma = weights df_row,
      p0 = [np_mean (amplitudes df_row), Fin 0, Fin 0.5, Fin 0, amax],
      maxfev = 1000000\<rparr>"

definition transient_args :: "series \<Rightarrow> pyfloat \<Rightarrow> fit_args" where
  "transient_args df_row amin =
     \<lparr>model = Transient_impulse,
      xdata = timepoints df_row,
      ydata = amplitudes df_row,
      bounds = ([NInf, NInf, NInf, NInf], [PInf, PInf, PInf, PInf]),
      sigma = weights df_row,
      p0 = [np_mean (amplitudes df_row), Fin 0, Fin 2, amin],
      maxfev = 100000\<rparr>"

text \<open>
  The body of a \<open>try\<close> block: the fit, the fitted values at the timepoints, the
  residuals and their sum of squares.  It raises when the solver raises, or when the
  model function cannot be called with the parameters the solver returned.
\<close>

definition fit_body :: "library \<Rightarrow> fit_args \<Rightarrow> py_error + model_fit" where
  "fit_body L args =
     (case curve_fit L args of
        Inl e \<Rightarrow> Inl e
      | Inr (popt, pcov) \<Rightarrow>
          (case call_model (model args) (xdata args) popt of
             Inl e \<Rightarrow> Inl e
           | Inr fitted \<Rightarrow>
               let residuals = map2 fsub (ydata args) fitted
               in Inr \<lparr>params = Params popt, cov = Cov pcov, fitted_values = fitted,
                       sse = fsum (map (\<lambda>r. fmul r r) residuals)\<rparr>))"

text \<open>The \<open>except\<close> branch.\<close>

definition fit_fallback :: "series \<Rightarrow> model_fit" where
  "fit_fallback df_row =
     \<lparr>params = Nan_params, cov = Nan_cov,
      fitted_values = replicate (length df_row) (Fin 0), sse = PInf\<rparr>"

definition try_fit :: "library \<Rightarrow> fit_args \<Rightarrow> series \<Rightarrow> model_fit" where
  "try_fit L args df_row =
     (case fit_body L args of Inl e \<Rightarrow> fit_fallback df_row | Inr r \<Rightarrow> r)"

text \<open>
  Lines 122 to 221: the four fits, in the order harmonic, square, cycloid, transient.
  \<open>np.max\<close> of an empty row raises before the first fit.
\<close>

definition model_fits ::
  "library \<Rightarrow> series \<Rightarrow> py_error + (model_fit \<times> model_fit \<times> model_fit \<times> model_fit)" where
  "model_fits L df_row =
     (case np_max (amplitudes df_row) of
        Inl e \<Rightarrow> Inl e
      | Inr amax \<Rightarrow>
          (case np_min (amplitudes df_row) of
             Inl e \<Rightarrow> Inl e
           | Inr amin \<Rightarrow>
               Inr (try_fit L (harmonic_args df_row amax) df_row,
                    try_fit L (square_args df_row amax) df_row,
                    try_fit L (cycloid_args df_row amax) df_row,
                    try_fit L (transient_args df_row amin) df_row)))"

text \<open>Lines 223 to 247: the best fit.\<close>

type_synonym best_fit = "string \<times> parameters \<times> covariance \<times> pyfloat list"

definition sse_values :: "model_fit \<times> model_fit \<times> model_fit \<times> model_fit \<Rightarrow> pyfloat list" where
  "sse_values fits = (case fits of (h, s, c, t) \<Rightarrow> [sse h, sse s, sse c, sse t])"

definition select_best ::
  "model_fit \<times> model_fit \<times> model_fit \<times> model_fit \<Rightarrow> py_error + best_fit" where
  "select_best fits =
     (case fits of (h, s, c, t) \<Rightarrow>
        (case np_argmin (sse_values fits) of
           Inl e \<Rightarrow> Inl e
         | Inr best_fit_index \<Rightarrow>
             Inr (if best_fit_index = 0
                  then (''harmonic_oscillator'', params h, cov h, fitted_values h)
                  else if best_fit_index = 1
                  then (''square_waveform'', params s, cov s, fitted_values s)
                  else if best_fit_index = 2
                  then (''cycloid'', params c, cov c, fitted_values c)
                  else (''transient'', params t, cov t, fitted_values t))))"

definition fit_best_waveform :: "library \<Rightarrow> series \<Rightarrow> py_error + best_fit" where
  "fit_best_waveform L df_row =
     (case model_fits L df_row of Inl e \<Rightarrow> Inl e | Inr fits \<Rightarrow> select_best fits)"

text \<open>
  The four candidates in the order the program enumerates them: the names it returns,
  and the arguments of the four solver calls.
\<close>

definition waveform_names :: "string list" where
  "waveform_names = [''harmonic_oscillator'', ''square_waveform'', ''cycloid'', ''transient'']"

definition model_args :: "series \<Rightarrow> pyfloat \<Rightarrow> pyfloat \<Rightarrow> fit_args list" where
  "model_args df_row amax amin =
     [harmonic_args df_row amax, square_args df_row amax, cycloid_args df_row amax,
      transient_args df_row amin]"

section \<open>Pipeline\<close>

text \<open>
  The input table.  When the first cell of the first row is a string, the first column
  becomes the index and names the features; otherwise every column is a measurement and
  the features are numbered by their position.
\<close>

datatype dataframe = Indexed "(string \<times> series) list" | Unindexed "series list"

datatype feature_id = Feature_name string | Feature_number nat

text \<open>\<open>df.iloc[0, 0]\<close> raises IndexError on a table with no row or no column.\<close>

fun iloc_0_0_raises :: "dataframe \<Rightarrow> bool" where
  "iloc_0_0_raises (Indexed rows) = (rows = [])"
| "iloc_0_0_raises (Unindexed rows) = (case rows of [] \<Rightarrow> True | r # rs \<Rightarrow> r = [])"

fun df_index :: "dataframe \<Rightarrow> feature_id list" where
  "df_index (Indexed rows) = map (\<lambda>(name, r). Feature_name name) rows"
| "df_index (Unindexed rows) = map Feature_number [0..<length rows]"

fun df_rows :: "dataframe \<Rightarrow> series list" where
  "df_rows (Indexed rows) = map snd rows"
| "df_rows (Unindexed rows) = rows"

text \<open>The category of a feature is a string, or \<open>np.nan\<close> for no call.\<close>

datatype oscillation = No_call | Category string

text \<open>
  \<open>params[1]\<close>: the marker \<open>np.nan\<close> is a float and cannot be subscripted (TypeError);
  an array too short raises IndexError.
\<close>

fun params_1 :: "parameters \<Rightarrow> py_error + pyfloat" where
  "params_1 Nan_params = Inl TypeError"
| "params_1 (Params ps) = (if 1 < length ps then Inr (ps ! 1) else Inl IndexError)"

text \<open>The body of the loop over the features: lines 274 to 285.\<close>

definition process_row ::
  "library \<Rightarrow> series \<Rightarrow> py_error + (pyfloat \<times> oscillation \<times> parameters)" where
  "process_row L df_row =
     (case fit_best_waveform L df_row of
        Inl e \<Rightarrow> Inl e
      | Inr (waveform, ps, covariance, fitted) \<Rightarrow>
          (case kendalltau L fitted (amplitudes df_row) of (tau, p_value) \<Rightarrow>
             (if flt p_value (Fin 0.05)
              then (if waveform = ''harmonic_oscillator''
                    then (case params_1 ps of
                            Inl e \<Rightarrow> Inl e
                          | Inr gamma \<Rightarrow> Inr (p_value, Category (categorize_rhythm gamma), ps))
                    else Inr (p_value, Category waveform, ps))
              else Inr (p_value, No_call, ps))))"

fun pycycle_loop ::
  "library \<Rightarrow> series list \<Rightarrow> py_error + (pyfloat \<times> oscillation \<times> parameters) list" where
  "pycycle_loop L [] = Inr []"
| "pycycle_loop L (r # rs) =
     (case process_row L r of
        Inl e \<Rightarrow> Inl e
      | Inr x \<Rightarrow> (case pycycle_loop L rs of Inl e \<Rightarrow> Inl e | Inr xs \<Rightarrow> Inr (x # xs)))"

record out_row =
  feature :: feature_id
  p_val :: pyfloat
  corr_p_val :: pyfloat
  osc_type :: oscillation
  parameters :: parameters

text \<open>
  \<open>DataFrame.sort_values(by=...)\<close> with its defaults, as pandas computes it: the rows
  whose key is NaN go last, in the order they have; the other rows are put in the order
  numpy's \<open>argsort\<close> gives for their keys.  A position out of range raises IndexError.
\<close>

definition nargsort :: "library \<Rightarrow> pyfloat list \<Rightarrow> py_error + nat list" where
  "nargsort L items =
     (let idx = [0..<length items];
          non_nans = filter (\<lambda>v. \<not> isnan v) items;
          non_nan_idx = filter (\<lambda>i. \<not> isnan (items ! i)) idx;
          nan_idx = filter (\<lambda>i. isnan (items ! i)) idx;
          sorter = argsort L non_nans
      in if list_all (\<lambda>j. j < length non_nan_idx) sorter
         then Inr (map (\<lambda>j. non_nan_idx ! j) sorter @ nan_idx)
         else Inl IndexError)"

definition sort_values :: "library \<Rightarrow> (out_row \<Rightarrow> pyfloat) \<Rightarrow> out_row list \<Rightarrow> py_error + out_row list" where
  "sort_values L by_col df_out =
     (case nargsort L (map by_col df_out) of
        Inl e \<Rightarrow> Inl e
      | Inr indexer \<Rightarrow> Inr (map (\<lambda>i. df_out ! i) indexer))"

text \<open>
  The constructor of the output table raises ValueError when its columns differ in
  length; the other four columns have one entry per feature.
\<close>

definition make_df_out ::
  "feature_id list \<Rightarrow> (pyfloat \<times> oscillation \<times> parameters) list \<Rightarrow> pyfloat list
     \<Rightarrow> py_error + out_row list" where
  "make_df_out index results corr_pvals =
     (if length corr_pvals \<noteq> length results then Inl ValueError
      else Inr (map (\<lambda>(name, (p, osc, ps), cp).
                       \<lparr>feature = name, p_val = p, corr_p_val = cp, osc_type = osc,
                        parameters = ps\<rparr>)
                    (zip index (zip results corr_pvals))))"

definition get_pycycle :: "library \<Rightarrow> dataframe \<Rightarrow> py_error + out_row list" where
  "get_pycycle L df =
     (if iloc_0_0_raises df then Inl IndexError
      else case pycycle_loop L (df_rows df) of
             Inl e \<Rightarrow> Inl e
           | Inr results \<Rightarrow>
               (let pvals = map fst results;
                    corr_pvals = multipletests L pvals
                in case make_df_out (df_index df) results corr_pvals of
                     Inl e \<Rightarrow> Inl e
                   | Inr df_out \<Rightarrow>
                       (case sort_values L p_val df_out of
                          Inl e \<Rightarrow> Inl e
                        | Inr by_p \<Rightarrow> sort_values L corr_p_val by_p)))"

section \<open>What the program relies on from the libraries\<close>

text \<open>
  scipy's \<open>kendalltau\<close> returns NaN for the statistic and the p-value when one of the
  two sequences is constant; a NaN p-value is not below 0.05.  The program meets this
  case with the all-zero fitted values of a failed fit.
\<close>

definition constant_input_not_significant :: "library \<Rightarrow> bool" where
  "constant_input_not_significant L =
     (\<forall>n ys. \<not> flt (snd (kendalltau L (replicate n (Fin 0)) ys)) (Fin 0.05))"

text \<open>\<open>multipletests\<close> returns one corrected p-value per p-value.\<close>

definition correction_keeps_length :: "library \<Rightarrow> bool" where
  "correction_keeps_length L = (\<forall>ps. length (multipletests L ps) = length ps)"

text \<open>
  \<open>argsort\<close> returns every position of its argument once, and the values at the
  positions it returns ascend.  Nothing more is promised of the default algorithm: numpy
  documents \<open>quicksort\<close> as not stable.
\<close>

definition argsort_permutes :: "library \<Rightarrow> bool" where
  "argsort_permutes L = (\<forall>ks. mset (argsort L ks) = mset [0..<length ks])"

definition argsort_ascends :: "library \<Rightarrow> bool" where
  "argsort_ascends L =
     (\<forall>ks. list_all (\<lambda>x. \<not> isnan x) ks
           \<longrightarrow> sorted_wrt (\<lambda>i j. fle (ks ! i) (ks ! j)) (argsort L ks))"

section \<open>Example inputs\<close>

text \<open>
  A row with two replicates at each of the timepoints 0 and 6, and a row with a single
  column.
\<close>

definition example_row :: series where
  "example_row =
     [(\<lparr>zt = 0, rep = 1\<rparr>, Fin 1), (\<lparr>zt = 0, rep = 2\<rparr>, Fin 3),
      (\<lparr>zt = 6, rep = 1\<rparr>, Fin 2), (\<lparr>zt = 6, rep = 2\<rparr>, Fin 6)]"

definition single_column_row :: series where
  "single_column_row = [(\<lparr>zt = 0, rep = 1\<rparr>, Fin 1)]"

text \<open>
  A stand-in for \<open>argsort\<close> in the examples: an insertion sort of the positions by
  their keys, which is what numpy's \<open>quicksort\<close> does on the short arrays of the
  examples.
\<close>

fun insort_by ::
  "(pyfloat \<Rightarrow> pyfloat \<Rightarrow> bool) \<Rightarrow> pyfloat list \<Rightarrow> nat \<Rightarrow> nat list \<Rightarrow> nat list" where
  "insort_by before ks i [] = [i]"
| "insort_by before ks i (j # js) =
     (if before (ks ! i) (ks ! j) then i # j # js else j # insort_by before ks i js)"

definition argsort_by :: "(pyfloat \<Rightarrow> pyfloat \<Rightarrow> bool) \<Rightarrow> pyfloat list \<Rightarrow> nat list" where
  "argsort_by before ks = foldl (\<lambda>acc i. insort_by before ks i acc) [] [0..<length ks]"

definition insertion_argsort :: "pyfloat list \<Rightarrow> nat list" where
  "insertion_argsort = argsort_by flt"

text \<open>
  A solver that fails on the harmonic model and returns a flat line at height 2 for the
  others (the transient model cannot take its five parameters), with a rank test that
  reports NaN for all-zero fitted values, \<open>p = 1\<close> for fewer than four points and
  \<open>p = 0.01\<close> otherwise; and a solver that always fails, with a rank test that reports
  NaN.  A table of two features for them.
\<close>

definition flat_fit :: model_fit where
  "flat_fit = \<lparr>params = Params [Fin 0, Fin 0, Fin 0.5, Fin 0, Fin 2], cov = Cov [],
               fitted_values = [Fin 2, Fin 2, Fin 2, Fin 2], sse = Fin 18\<rparr>"

definition flat_library :: library where
  "flat_library =
     \<lparr>curve_fit = (\<lambda>args. if model args = Extended_harmonic_oscillator then Inl RuntimeError
                           else Inr ([Fin 0, Fin 0, Fin 0.5, Fin 0, Fin 2], [])),
      kendalltau = (\<lambda>x y. if list_all (\<lambda>v. v = Fin 0) x then (NaN, NaN)
                            else if length x < 4 then (Fin 0, Fin 1) else (Fin 1, Fin 0.01)),
      multipletests = (\<lambda>ps. ps),
      argsort = insertion_argsort\<rparr>"

definition example_table :: dataframe where
  "example_table = Indexed [(''gene_b'', single_column_row), (''gene_a'', example_row)]"

definition flat_fit_single :: model_fit where
  "flat_fit_single = \<lparr>params = Params [Fin 0, Fin 0, Fin 0.5, Fin 0, Fin 2], cov = Cov [],
               fitted_values = [Fin 2], sse = Fin 1\<rparr>"

definition example_output :: "out_row list" where
  "example_output =
     [\<lparr>feature = Feature_name ''gene_a'', p_val = Fin 0.01, corr_p_val = Fin 0.01,
       osc_type = Category ''square_waveform'',
       parameters = Params [Fin 0, Fin 0, Fin 0.5, Fin 0, Fin 2]\<rparr>,
      \<lparr>feature = Feature_name ''gene_b'', p_val = Fin 1, corr_p_val = Fin 1,
       osc_type = No_call,
       parameters = Params [Fin 0, Fin 0, Fin 0.5, Fin 0, Fin 2]\<rparr>]"

definition failing_library :: library where
  "failing_library =
     \<lparr>curve_fit = (\<lambda>args. Inl RuntimeError),
      kendalltau = (\<lambda>x y. (NaN, NaN)),
      multipletests = (\<lambda>ps. ps),
      argsort = insertion_argsort\<rparr>"

section \<open>Comparisons and the position of the minimum\<close>

lemma fge_or_flt: "\<not> isnan a \<Longrightarrow> \<not> isnan b \<Longrightarrow> (\<not> fge a b) = flt a b"
  by (cases a; cases b) (auto simp: fge_def fle_def)

lemma flt_trans: "flt a b \<Longrightarrow> flt b c \<Longrightarrow> flt a c"
  by (cases a; cases b; cases c) auto

lemma fle_trans: "fle a b \<Longrightarrow> fle b c \<Longrightarrow> fle a c"
  by (cases a; cases b; cases c) (auto simp: fle_def)

lemma flt_fle_trans: "flt a b \<Longrightarrow> fle b c \<Longrightarrow> flt a c"
  by (cases a; cases b; cases c) (auto simp: fle_def)

lemma flt_imp_fle: "flt a b \<Longrightarrow> fle a b"
  by (simp add: fle_def)

lemma fle_refl: "\<not> isnan a \<Longrightarrow> fle a a"
  by (cases a) (auto simp: fle_def)

lemma flt_not_nan: "flt a b \<Longrightarrow> \<not> isnan a \<and> \<not> isnan b"
  by (cases a; cases b) auto

lemma argmin_loop_spec:
  assumes "list_all (\<lambda>x. \<not> isnan x) ys" and "\<not> isnan mp"
  shows "(argmin_loop mp m i ys = m \<and> list_all (\<lambda>y. fle mp y) ys)
       \<or> (\<exists>k<length ys. argmin_loop mp m i ys = i + k \<and> flt (ys ! k) mp
            \<and> list_all (\<lambda>y. fle (ys ! k) y) ys \<and> (\<forall>j<k. flt (ys ! k) (ys ! j)))"
  using assms
proof (induction ys arbitrary: mp m i)
  case Nil
  then show ?case by simp
next
  case (Cons x xs)
  have xn: "\<not> isnan x" and xsn: "list_all (\<lambda>x. \<not> isnan x) xs" using Cons.prems by auto
  show ?case
  proof (cases "flt x mp")
    case True
    then have step: "argmin_loop mp m i (x # xs) = argmin_loop x i (Suc i) xs"
      using xn Cons.prems(2) by (simp add: fge_or_flt)
    from Cons.IH[OF xsn xn, of i "Suc i"] show ?thesis
    proof
      assume a: "argmin_loop x i (Suc i) xs = i \<and> list_all (fle x) xs"
      have "0 < length (x # xs) \<and> argmin_loop mp m i (x # xs) = i + 0 \<and> flt ((x # xs) ! 0) mp
            \<and> list_all (fle ((x # xs) ! 0)) (x # xs) \<and> (\<forall>j<0. flt ((x # xs) ! 0) ((x # xs) ! j))"
        using a step True xn by (simp add: fle_refl)
      then show ?thesis by blast
    next
      assume "\<exists>k<length xs. argmin_loop x i (Suc i) xs = Suc i + k \<and> flt (xs ! k) x
            \<and> list_all (fle (xs ! k)) xs \<and> (\<forall>j<k. flt (xs ! k) (xs ! j))"
      then obtain k where k: "k < length xs" "argmin_loop x i (Suc i) xs = Suc i + k" "flt (xs ! k) x"
         "list_all (fle (xs ! k)) xs" "\<forall>j<k. flt (xs ! k) (xs ! j)" by blast
      have "Suc k < length (x # xs) \<and> argmin_loop mp m i (x # xs) = i + Suc k
            \<and> flt ((x # xs) ! Suc k) mp
            \<and> list_all (fle ((x # xs) ! Suc k)) (x # xs)
            \<and> (\<forall>j<Suc k. flt ((x # xs) ! Suc k) ((x # xs) ! j))"
        using k step True by (auto simp: flt_imp_fle less_Suc_eq_0_disj intro: flt_trans)
      then show ?thesis by blast
    qed
  next
    case False
    then have ge: "fle mp x" using xn Cons.prems(2) fge_or_flt[of x mp] by (simp add: fge_def)
    have step: "argmin_loop mp m i (x # xs) = argmin_loop mp m (Suc i) xs"
      using False xn Cons.prems(2) by (simp add: fge_or_flt)
    from Cons.IH[OF xsn Cons.prems(2), of m "Suc i"] show ?thesis
    proof
      assume "argmin_loop mp m (Suc i) xs = m \<and> list_all (fle mp) xs"
      then show ?thesis using step ge by simp
    next
      assume "\<exists>k<length xs. argmin_loop mp m (Suc i) xs = Suc i + k \<and> flt (xs ! k) mp
            \<and> list_all (fle (xs ! k)) xs \<and> (\<forall>j<k. flt (xs ! k) (xs ! j))"
      then obtain k where k: "k < length xs" "argmin_loop mp m (Suc i) xs = Suc i + k" "flt (xs ! k) mp"
         "list_all (fle (xs ! k)) xs" "\<forall>j<k. flt (xs ! k) (xs ! j)" by blast
      have "Suc k < length (x # xs) \<and> argmin_loop mp m i (x # xs) = i + Suc k
            \<and> flt ((x # xs) ! Suc k) mp
            \<and> list_all (fle ((x # xs) ! Suc k)) (x # xs)
            \<and> (\<forall>j<Suc k. flt ((x # xs) ! Suc k) ((x # xs) ! j))"
        using k step ge flt_fle_trans[OF k(3) ge]
        by (auto simp: flt_imp_fle less_Suc_eq_0_disj)
      then show ?thesis by blast
    qed
  qed
qed

lemma np_argmin_first_minimum:
  assumes "np_argmin xs = Inr i" and "list_all (\<lambda>x. \<not> isnan x) xs"
  shows "i < length xs \<and> list_all (\<lambda>y. fle (xs ! i) y) xs \<and> (\<forall>j<i. flt (xs ! i) (xs ! j))"
proof (cases xs)
  case Nil
  then show ?thesis using assms by simp
next
  case (Cons x ys)
  then have xn: "\<not> isnan x" and ysn: "list_all (\<lambda>x. \<not> isnan x) ys" using assms(2) by auto
  have i: "i = argmin_loop x 0 1 ys" using assms(1) Cons xn by simp
  from argmin_loop_spec[OF ysn xn, of 0 1] show ?thesis
  proof
    assume "argmin_loop x 0 1 ys = 0 \<and> list_all (fle x) ys"
    then show ?thesis using i Cons xn by (simp add: fle_refl)
  next
    assume "\<exists>k<length ys. argmin_loop x 0 1 ys = 1 + k \<and> flt (ys ! k) x
            \<and> list_all (fle (ys ! k)) ys \<and> (\<forall>j<k. flt (ys ! k) (ys ! j))"
    then obtain k where k: "k < length ys" "argmin_loop x 0 1 ys = 1 + k" "flt (ys ! k) x"
         "list_all (fle (ys ! k)) ys" "\<forall>j<k. flt (ys ! k) (ys ! j)" by blast
    then show ?thesis using i Cons by (auto simp: flt_imp_fle less_Suc_eq_0_disj)
  qed
qed

text \<open>A value PInf is selected only at position 0 and only if every value is PInf.\<close>

lemma fge_PInf: "\<not> isnan mp \<Longrightarrow> fge PInf mp"
  by (cases mp) (auto simp: fge_def fle_def)

lemma fge_PInf_iff: "fge y PInf = (y = PInf)"
  by (cases y) (auto simp: fge_def fle_def)

lemma argmin_loop_inf:
  assumes "\<not> isnan mp" and "m < i"
  shows "(argmin_loop mp m i ys = m \<and> list_all (\<lambda>y. fge y mp) ys)
       \<or> (i \<le> argmin_loop mp m i ys \<and> argmin_loop mp m i ys - i < length ys
           \<and> ys ! (argmin_loop mp m i ys - i) \<noteq> PInf)"
  using assms
proof (induction ys arbitrary: mp m i)
  case Nil
  then show ?case by simp
next
  case (Cons x xs)
  show ?case
  proof (cases "fge x mp")
    case True
    then have step: "argmin_loop mp m i (x # xs) = argmin_loop mp m (Suc i) xs" by simp
    have "m < Suc i" using Cons.prems by simp
    from Cons.IH[OF Cons.prems(1) this] show ?thesis
      using step True by (auto simp: Suc_diff_le)
  next
    case False
    then have xinf: "x \<noteq> PInf" using fge_PInf[OF Cons.prems(1)] by auto
    show ?thesis
    proof (cases "isnan x")
      case True
      then show ?thesis using False xinf by simp
    next
      case nn: False
      then have step: "argmin_loop mp m i (x # xs) = argmin_loop x i (Suc i) xs" using False by simp
      from Cons.IH[OF nn, of i "Suc i"] show ?thesis
        using step xinf by (auto simp: Suc_diff_le)
    qed
  qed
qed

lemma np_argmin_inf:
  assumes "np_argmin xs = Inr i" and "xs ! i = PInf"
  shows "i = 0 \<and> list_all (\<lambda>y. y = PInf) xs"
proof (cases xs)
  case Nil
  then show ?thesis using assms by simp
next
  case (Cons x ys)
  show ?thesis
  proof (cases "isnan x")
    case True
    then show ?thesis using assms Cons by auto
  next
    case False
    then have i: "i = argmin_loop x 0 1 ys" using assms(1) Cons by simp
    have "(0::nat) < 1" by simp
    from argmin_loop_inf[OF False this, of ys] show ?thesis
    proof
      assume a: "argmin_loop x 0 1 ys = 0 \<and> list_all (\<lambda>y. fge y x) ys"
      then have "x = PInf" using i assms(2) Cons by simp
      then show ?thesis using a i Cons by (simp add: fge_PInf_iff)
    next
      assume a: "1 \<le> argmin_loop x 0 1 ys \<and> argmin_loop x 0 1 ys - 1 < length ys
           \<and> ys ! (argmin_loop x 0 1 ys - 1) \<noteq> PInf"
      then have "xs ! i = ys ! (i - 1)" using i Cons by (cases i) auto
      then show ?thesis using a i assms(2) by simp
    qed
  qed
qed

lemma argmin_loop_bound:
  "m < i \<Longrightarrow> argmin_loop mp m i ys = m \<or> (i \<le> argmin_loop mp m i ys \<and> argmin_loop mp m i ys < i + length ys)"
proof (induction ys arbitrary: mp m i)
  case Nil
  then show ?case by simp
next
  case (Cons x xs)
  have a: "m < Suc i" and b: "i < Suc i" using Cons.prems by simp_all
  show ?case using Cons.IH[OF a, of mp] Cons.IH[OF b, of x] by auto
qed

lemma np_argmin_less:
  assumes "np_argmin xs = Inr i"
  shows "i < length xs"
proof (cases xs)
  case Nil
  then show ?thesis using assms by simp
next
  case (Cons x ys)
  then show ?thesis using assms argmin_loop_bound[of 0 1 x ys] by (auto split: if_splits)
qed

section \<open>Doubles and decimal fractions\<close>

lemma is_double_minus: "is_double (- x) = is_double x"
proof -
  have "is_double (- y)" if d: "is_double y" for y
  proof -
    obtain m :: int and n :: nat where m: "\<bar>m\<bar> < 2 ^ 53"
      and c: "(n \<le> 971 \<and> y = real_of_int m * 2 ^ n) \<or> (n \<le> 1074 \<and> y = real_of_int m / 2 ^ n)"
      using d unfolding is_double_def by blast
    have "\<bar>- m\<bar> < 2 ^ 53" using m by simp
    moreover have "(n \<le> 971 \<and> - y = real_of_int (- m) * 2 ^ n)
        \<or> (n \<le> 1074 \<and> - y = real_of_int (- m) / 2 ^ n)"
      using c by auto
    ultimately show ?thesis unfolding is_double_def by blast
  qed
  from this [of x] this [of "- x"] show ?thesis by auto
qed

text \<open>
  A double of magnitude at least \<open>2^(52 - k)\<close> is a multiple of \<open>2^(- k)\<close>: its 53-bit
  mantissa leaves no finer digit.
\<close>

lemma double_on_grid:
  assumes "is_double x" and "2 ^ 52 \<le> \<bar>x\<bar> * 2 ^ k"
  shows "\<exists>N::int. x * 2 ^ k = real_of_int N"
proof -
  obtain m :: int and n :: nat where m: "\<bar>m\<bar> < 2 ^ 53"
    and c: "(n \<le> 971 \<and> x = real_of_int m * 2 ^ n) \<or> (n \<le> 1074 \<and> x = real_of_int m / 2 ^ n)"
    using assms(1) unfolding is_double_def by blast
  from c show ?thesis
  proof
    assume "n \<le> 971 \<and> x = real_of_int m * 2 ^ n"
    then have "x * 2 ^ k = real_of_int (m * 2 ^ n * 2 ^ k)" by simp
    then show ?thesis by blast
  next
    assume a: "n \<le> 1074 \<and> x = real_of_int m / 2 ^ n"
    have "n \<le> k"
    proof (rule ccontr)
      assume "\<not> n \<le> k"
      then have "Suc k \<le> n" by simp
      then have "(2::real) ^ Suc k \<le> 2 ^ n" by (rule power_increasing) simp
      then have le: "(2::real) ^ k * 2 \<le> 2 ^ n" by simp
      have "\<bar>x\<bar> = \<bar>real_of_int m\<bar> / 2 ^ n" using a by (simp add: abs_divide)
      then have "\<bar>x\<bar> * 2 ^ n = \<bar>real_of_int m\<bar>" by simp
      moreover have "\<bar>real_of_int m\<bar> < 2 ^ 53"
        using m by (metis of_int_abs of_int_less_numeral_power_cancel_iff)
      ultimately have lt: "\<bar>x\<bar> * 2 ^ n < 2 ^ 53" by simp
      have "\<bar>x\<bar> * (2 ^ k * 2) \<le> \<bar>x\<bar> * 2 ^ n"
        using le by (rule mult_left_mono) simp
      then have "\<bar>x\<bar> * 2 ^ k * 2 < 2 ^ 52 * 2" using lt by simp
      then have "\<bar>x\<bar> * 2 ^ k < 2 ^ 52" by simp
      then show False using assms(2) by simp
    qed
    then have "(2::real) ^ k = 2 ^ n * 2 ^ (k - n)"
      by (simp add: power_add [symmetric])
    then have "x * 2 ^ k = real_of_int m / 2 ^ n * (2 ^ n * 2 ^ (k - n))" using a by simp
    also have "\<dots> = real_of_int (m * 2 ^ (k - n))" by simp
    finally show ?thesis by blast
  qed
qed

lemma is_double_ratio: "\<bar>m\<bar> < 2 ^ 53 \<Longrightarrow> n \<le> 1074 \<Longrightarrow> is_double (real_of_int m / 2 ^ n)"
  unfolding is_double_def by blast

text \<open>
  The significance level: the double \<open>0.05\<close> is \<open>3602879701896397 / 2^56\<close>, a little
  above the decimal fraction, and the doubles below the one are the doubles below the
  other.
\<close>

lemma significance_level_exact:
  assumes "is_double p"
  shows "(p < 3602879701896397 / 2 ^ 56) = (p < 0.05)"
proof
  assume "p < 0.05"
  then show "p < 3602879701896397 / 2 ^ 56" by simp
next
  assume lt: "p < 3602879701896397 / 2 ^ 56"
  show "p < 0.05"
  proof (rule ccontr)
    assume "\<not> p < 0.05"
    then have ge: "0.05 \<le> p" by simp
    then have "1 / 2 ^ 5 \<le> p" by simp
    then have "1 / 2 ^ 5 * 2 ^ 57 \<le> \<bar>p\<bar> * 2 ^ 57" by simp
    then have "2 ^ 52 \<le> \<bar>p\<bar> * 2 ^ 57" by simp
    then obtain N :: int where N: "p * 2 ^ 57 = real_of_int N"
      using double_on_grid [OF assms] by blast
    have "0.05 * 2 ^ 57 \<le> p * 2 ^ 57" using ge by simp
    then have "7205759403792793 < real_of_int N" unfolding N by simp
    then have lo: "7205759403792793 < N" by simp
    have "p * 2 ^ 57 < 3602879701896397 / 2 ^ 56 * 2 ^ 57" using lt by simp
    then have "real_of_int N < 7205759403792794" unfolding N by simp
    then have "N < 7205759403792794" by simp
    then show False using lo by simp
  qed
qed

section \<open>Properties of the classifier\<close>

lemma double_0_03_bounds: "1 / 2 ^ 6 \<le> double_0_03" "double_0_03 < 3 / 100"
  by (simp_all add: double_0_03_def)

lemma double_0_15_bounds: "1 / 2 ^ 3 \<le> double_0_15" "double_0_15 < 15 / 100"
  by (simp_all add: double_0_15_def)

lemma double_0_03_less_0_15: "double_0_03 < double_0_15"
  by (simp add: double_0_03_def double_0_15_def)

lemma double_0_03_scaled: "double_0_03 * 2 ^ 58 = 8646911284551352"
  by (simp add: double_0_03_def)

lemma double_0_15_scaled: "double_0_15 * 2 ^ 55 = 5404319552844595"
  by (simp add: double_0_15_def)

text \<open>No double lies between the double \<open>0.03\<close> and the decimal fraction \<open>3/100\<close>.\<close>

lemma no_double_up_to_0_03:
  assumes "is_double g" and "double_0_03 < g" and "g < 3 / 100"
  shows False
proof -
  have "1 / 2 ^ 6 < g" using assms(2) double_0_03_bounds(1) by simp
  then have "1 / 2 ^ 6 * 2 ^ 58 \<le> \<bar>g\<bar> * 2 ^ 58" by simp
  then have "2 ^ 52 \<le> \<bar>g\<bar> * 2 ^ 58" by simp
  then obtain N :: int where N: "g * 2 ^ 58 = real_of_int N"
    using double_on_grid [OF assms(1)] by blast
  have "double_0_03 * 2 ^ 58 < g * 2 ^ 58" using assms(2) by simp
  then have "8646911284551352 < real_of_int N" unfolding double_0_03_scaled N .
  then have lo: "8646911284551352 < N" by simp
  have "g * 2 ^ 58 < 3 / 100 * 2 ^ 58" using assms(3) by simp
  then have "real_of_int N < 8646911284551353" unfolding N by simp
  then have "N < 8646911284551353" by simp
  then show False using lo by simp
qed

text \<open>No double lies between the double \<open>0.15\<close> and the decimal fraction \<open>15/100\<close>.\<close>

lemma no_double_up_to_0_15:
  assumes "is_double g" and "double_0_15 < g" and "g \<le> 15 / 100"
  shows False
proof -
  have "1 / 2 ^ 3 < g" using assms(2) double_0_15_bounds(1) by simp
  then have "1 / 2 ^ 3 * 2 ^ 55 \<le> \<bar>g\<bar> * 2 ^ 55" by simp
  then have "2 ^ 52 \<le> \<bar>g\<bar> * 2 ^ 55" by simp
  then obtain N :: int where N: "g * 2 ^ 55 = real_of_int N"
    using double_on_grid [OF assms(1)] by blast
  have "double_0_15 * 2 ^ 55 < g * 2 ^ 55" using assms(2) by simp
  then have "5404319552844595 < real_of_int N" unfolding double_0_15_scaled N .
  then have lo: "5404319552844595 < N" by simp
  have "g * 2 ^ 55 \<le> 15 / 100 * 2 ^ 55" using assms(3) by simp
  then have "real_of_int N < 5404319552844596" unfolding N by simp
  then have "N < 5404319552844596" by simp
  then show False using lo by simp
qed

lemma double_below_0_03:
  assumes "is_double g" and "g < 3 / 100" and "g \<noteq> double_0_03"
  shows "g < double_0_03"
  using no_double_up_to_0_03 [OF assms(1)] assms(2,3) by fastforce

lemma double_up_to_0_15:
  assumes "is_double g" and "g \<le> 15 / 100"
  shows "g \<le> double_0_15"
  using no_double_up_to_0_15 [OF assms(1)] assms(2) by fastforce

lemma categorize_rhythm_Fin:
  "categorize_rhythm (Fin g) =
     (if double_0_03 \<le> g \<and> g \<le> double_0_15 then ''damped''
      else if - double_0_15 \<le> g \<and> g \<le> - double_0_03 then ''forced''
      else if - double_0_03 < g \<and> g < double_0_03 then ''harmonic''
      else if double_0_15 < g then ''overexpressed'' else ''repressed'')"
  using double_0_03_bounds(1) double_0_03_less_0_15
  by (auto simp: categorize_rhythm_def fge_def fle_def fgt_def)


lemma example_doubles:
  "is_double double_0_03" "is_double double_0_15" "is_double double_0_029999"
  "is_double double_0_1500001" "is_double double_after_0_03"
  using is_double_ratio [of 1080863910568919 55] is_double_ratio [of 5404319552844595 55]
    is_double_ratio [of 8646623054175201 58] is_double_ratio [of 5404323155724297 55]
    is_double_ratio [of 8646911284551353 58]
  by (simp_all add: double_0_03_def double_0_15_def double_0_029999_def double_0_1500001_def
      double_after_0_03_def)

text \<open>
  C5.  For every real damping coefficient \<open>g\<close>, \<open>categorize_rhythm\<close> returns
  \<open>damped\<close> when \<open>0.03 \<le> g \<le> 0.15\<close> (both ends included), \<open>forced\<close> when
  \<open>-0.15 \<le> g \<le> -0.03\<close>, \<open>harmonic\<close> when \<open>g\<close> is strictly between \<open>-0.03\<close> and
  \<open>0.03\<close>, \<open>overexpressed\<close> when \<open>g > 0.15\<close> and \<open>repressed\<close> when \<open>g < -0.15\<close>,
  where \<open>0.03\<close> and \<open>0.15\<close> are the doubles of these literals, as in the program.  When
  \<open>g\<close> is a double, the same holds with \<open>0.03\<close> and \<open>0.15\<close> read as the decimal
  fractions \<open>3/100\<close> and \<open>15/100\<close>, apart from the two doubles \<open>0.03\<close> and \<open>-0.03\<close>
  themselves, which lie a little inside the decimal interval and are \<open>damped\<close> and
  \<open>forced\<close>: no other double lies between a threshold and its decimal fraction.
\<close>

theorem categorize_rhythm_ranges:
  fixes g :: real
  shows "(double_0_03 \<le> g \<and> g \<le> double_0_15 \<longrightarrow> categorize_rhythm (Fin g) = ''damped'')
       \<and> (- double_0_15 \<le> g \<and> g \<le> - double_0_03 \<longrightarrow> categorize_rhythm (Fin g) = ''forced'')
       \<and> (- double_0_03 < g \<and> g < double_0_03 \<longrightarrow> categorize_rhythm (Fin g) = ''harmonic'')
       \<and> (double_0_15 < g \<longrightarrow> categorize_rhythm (Fin g) = ''overexpressed'')
       \<and> (g < - double_0_15 \<longrightarrow> categorize_rhythm (Fin g) = ''repressed'')
       \<and> (is_double g \<longrightarrow>
            (0.03 \<le> g \<and> g \<le> 0.15 \<longrightarrow> categorize_rhythm (Fin g) = ''damped'')
          \<and> (- 0.15 \<le> g \<and> g \<le> - 0.03 \<longrightarrow> categorize_rhythm (Fin g) = ''forced'')
          \<and> (- 0.03 < g \<and> g < 0.03 \<and> g \<noteq> double_0_03 \<and> g \<noteq> - double_0_03
               \<longrightarrow> categorize_rhythm (Fin g) = ''harmonic'')
          \<and> (0.15 < g \<longrightarrow> categorize_rhythm (Fin g) = ''overexpressed'')
          \<and> (g < - 0.15 \<longrightarrow> categorize_rhythm (Fin g) = ''repressed''))"
proof -
  note b = double_0_03_bounds double_0_15_bounds double_0_03_less_0_15
  have 1: "double_0_03 \<le> g \<and> g \<le> double_0_15 \<longrightarrow> categorize_rhythm (Fin g) = ''damped''"
    by (simp add: categorize_rhythm_Fin)
  have 2: "- double_0_15 \<le> g \<and> g \<le> - double_0_03 \<longrightarrow> categorize_rhythm (Fin g) = ''forced''"
    using b by (auto simp: categorize_rhythm_Fin)
  have 3: "- double_0_03 < g \<and> g < double_0_03 \<longrightarrow> categorize_rhythm (Fin g) = ''harmonic''"
    using b by (auto simp: categorize_rhythm_Fin)
  have 4: "double_0_15 < g \<longrightarrow> categorize_rhythm (Fin g) = ''overexpressed''"
    using b by (auto simp: categorize_rhythm_Fin)
  have 5: "g < - double_0_15 \<longrightarrow> categorize_rhythm (Fin g) = ''repressed''"
    using b by (auto simp: categorize_rhythm_Fin)
  have 6: "categorize_rhythm (Fin g) = ''damped''"
    if d: "is_double g" and r: "0.03 \<le> g \<and> g \<le> 0.15"
  proof -
    have "g \<le> double_0_15" using double_up_to_0_15 [OF d] r by simp
    moreover have "double_0_03 \<le> g" using r b(2) by simp
    ultimately show ?thesis using 1 by simp
  qed
  have 7: "categorize_rhythm (Fin g) = ''forced''"
    if d: "is_double g" and r: "- 0.15 \<le> g \<and> g \<le> - 0.03"
  proof -
    have "is_double (- g)" using d by (simp add: is_double_minus)
    then have "- g \<le> double_0_15" using double_up_to_0_15 [of "- g"] r by simp
    moreover have "double_0_03 \<le> - g" using r b(2) by simp
    ultimately show ?thesis using 2 by simp
  qed
  have 8: "categorize_rhythm (Fin g) = ''harmonic''"
    if d: "is_double g"
      and r: "- 0.03 < g \<and> g < 0.03 \<and> g \<noteq> double_0_03 \<and> g \<noteq> - double_0_03"
  proof -
    have "g < double_0_03" using double_below_0_03 [OF d] r by simp
    moreover have "is_double (- g)" using d by (simp add: is_double_minus)
    then have "- g < double_0_03" using double_below_0_03 [of "- g"] r by auto
    ultimately show ?thesis using 3 by simp
  qed
  have 9: "0.15 < g \<longrightarrow> categorize_rhythm (Fin g) = ''overexpressed''"
    using 4 b(4) by simp
  have 10: "g < - 0.15 \<longrightarrow> categorize_rhythm (Fin g) = ''repressed''"
    using 5 b(4) by simp
  from 1 2 3 4 5 6 7 8 9 10 show ?thesis by blast
qed

text \<open>
  The boundary values the specification names, as the doubles the program is given for
  them, and their mirror images; the first double above the double \<open>0.03\<close> is also the
  first that is not below \<open>3/100\<close>.
\<close>

theorem categorize_rhythm_ranges_witness:
  "categorize_rhythm (Fin double_0_03) = ''damped''
   \<and> categorize_rhythm (Fin double_0_15) = ''damped''
   \<and> categorize_rhythm (Fin double_0_029999) = ''harmonic''
   \<and> categorize_rhythm (Fin double_0_1500001) = ''overexpressed''
   \<and> categorize_rhythm (Fin (- double_0_03)) = ''forced''
   \<and> categorize_rhythm (Fin (- double_0_15)) = ''forced''
   \<and> categorize_rhythm (Fin (- double_0_029999)) = ''harmonic''
   \<and> categorize_rhythm (Fin (- double_0_1500001)) = ''repressed''
   \<and> is_double double_after_0_03 \<and> 0.03 \<le> double_after_0_03 \<and> double_after_0_03 \<le> 0.15
   \<and> categorize_rhythm (Fin double_after_0_03) = ''damped''"
  using categorize_rhythm_ranges [of double_0_03] categorize_rhythm_ranges [of double_0_15]
    categorize_rhythm_ranges [of double_0_029999] categorize_rhythm_ranges [of double_0_1500001]
    categorize_rhythm_ranges [of "- double_0_03"] categorize_rhythm_ranges [of "- double_0_15"]
    categorize_rhythm_ranges [of "- double_0_029999"]
    categorize_rhythm_ranges [of "- double_0_1500001"]
    categorize_rhythm_ranges [of double_after_0_03] example_doubles(5)
  by (simp add: double_0_03_def double_0_15_def double_0_029999_def double_0_1500001_def
      double_after_0_03_def)

lemma flt_NaN: "\<not> flt t NaN" "\<not> flt NaN t" "\<not> feq t NaN" "\<not> feq NaN t"
  by (cases t; simp)+

text \<open>
  C10.  \<open>categorize_rhythm\<close> returns one of the five labels on every float, the special
  values included (the model has no failing branch: comparing floats never raises).  On
  NaN every comparison of the chain is false, as is every comparison with NaN whatever
  the threshold, and the result is \<open>repressed\<close>.
\<close>

theorem categorize_rhythm_total:
  "categorize_rhythm x \<in> {''damped'', ''forced'', ''harmonic'', ''overexpressed'', ''repressed''}
   \<and> \<not> fge (Fin double_0_15) NaN \<and> \<not> fge NaN (Fin double_0_03)
   \<and> \<not> fle (Fin (- double_0_15)) NaN \<and> \<not> fle NaN (Fin (- double_0_03))
   \<and> \<not> fle (Fin (- double_0_03)) NaN \<and> \<not> fle NaN (Fin double_0_03)
   \<and> \<not> fgt NaN (Fin double_0_15)
   \<and> (\<forall>t. \<not> fge t NaN \<and> \<not> fge NaN t \<and> \<not> fle t NaN \<and> \<not> fle NaN t \<and> \<not> fgt NaN t)
   \<and> categorize_rhythm NaN = ''repressed''"
  by (simp add: categorize_rhythm_def fge_def fle_def fgt_def flt_NaN)

theorem categorize_rhythm_total_witness:
  "categorize_rhythm PInf \<in> {''damped'', ''forced'', ''harmonic'', ''overexpressed'', ''repressed''}
   \<and> categorize_rhythm (Fin 0.1) \<in> {''damped'', ''forced'', ''harmonic'', ''overexpressed'', ''repressed''}
   \<and> categorize_rhythm NaN = ''repressed''"
  using categorize_rhythm_total [of PInf] categorize_rhythm_total [of "Fin 0.1"]
  by simp

section \<open>Variances and weights\<close>

lemma calculate_variances_example:
  "calculate_variances example_row = [(0, Fin 2), (6, Fin 8)]"
  by (simp add: calculate_variances_def example_row_def zt_times_def np_unique_def
      var_ddof1_def fsum_def fsub_def truthy_def fne_def Let_def)

lemma weights_example:
  "weights example_row = [Fin (1 / 2 + 0.000001), Fin (1 / 2 + 0.000001), Fin 0.000001, Fin 0.000001]"
  unfolding weights_def Let_def calculate_variances_example
  using pi_less_4 by (simp add: timepoints_def example_row_def fne_def)

text \<open>
  C1.  The claim: the weight of a column is \<open>1/variance + 1e-6\<close> when the timepoint of
  the column has a nonzero variance in the variance map, which is keyed by the raw
  timepoint.  The program looks the variance up under the rescaled timepoint (line 117
  rescales \<open>timepoints\<close> before line 120 reads the map), so only timepoint 0 is ever
  found.  On \<open>example_row\<close> the map holds variance 8 for timepoint 6, and the two
  columns of timepoint 6 get the weight \<open>1e-6\<close>, not \<open>1/8 + 1e-6\<close>.
\<close>

theorem weights_miss_rescaled_timepoint:
  "calculate_variances example_row = [(0, Fin 2), (6, Fin 8)]
   \<and> weights example_row
       = [Fin (1 / 2 + 0.000001), Fin (1 / 2 + 0.000001), Fin 0.000001, Fin 0.000001]
   \<and> weights example_row ! 2 \<noteq> Fin (1 / 8 + 0.000001)"
  by (simp add: calculate_variances_example weights_example)

text \<open>
  C2.  The claim: the uncertainty handed to the solver is \<open>1/weight\<close>.  All four calls
  pass the weights themselves as \<open>sigma\<close>; on \<open>example_row\<close> the two differ.
\<close>

theorem sigma_is_weights:
  "sigma (harmonic_args df_row amax) = weights df_row
   \<and> sigma (square_args df_row amax) = weights df_row
   \<and> sigma (cycloid_args df_row amax) = weights df_row
   \<and> sigma (transient_args df_row amin) = weights df_row
   \<and> weights example_row \<noteq> map (fdiv (Fin 1)) (weights example_row)"
  by (simp add: harmonic_args_def square_args_def cycloid_args_def transient_args_def
      weights_example)

text \<open>
  C3.  The claim: a timepoint with fewer than two replicate columns gets variance 0 in
  the variance map, and the undefined variance never reaches the weights.  The program
  writes \<open>zt_var if zt_var else 0\<close>, and NaN is true in a condition, so the NaN stays
  in the map; at timepoint 0, which the lookup of the weights finds, the weight is NaN.
\<close>

theorem single_replicate_variance_is_nan:
  assumes "z \<in> set (zt_times data)"
    and "length (filter (\<lambda>(c, v). zt c = z) data) < 2"
  shows "map_of (calculate_variances data) z = Some NaN"
proof -
  let ?g = "\<lambda>z. let zt_columns = filter (\<lambda>(c, v). zt c = z) data;
                     zt_var = var_ddof1 (map snd zt_columns)
                 in if truthy zt_var then zt_var else Fin 0"
  have cv: "calculate_variances data = map (\<lambda>z. (z, ?g z)) (np_unique (zt_times data))"
    by (simp add: calculate_variances_def Let_def)
  have "z \<in> set (np_unique (zt_times data))"
    using assms(1) by (simp add: np_unique_def)
  then have "map_of (calculate_variances data) z = Some (?g z)"
    unfolding cv by (simp add: map_of_map_restrict)
  moreover have "length (filter (\<lambda>v. \<not> isnan v) (map snd (filter (\<lambda>(c, v). zt c = z) data))) \<le> 1"
    using assms(2) length_filter_le [of "\<lambda>v. \<not> isnan v" "map snd (filter (\<lambda>(c, v). zt c = z) data)"]
    by simp
  then have "var_ddof1 (map snd (filter (\<lambda>(c, v). zt c = z) data)) = NaN"
    by (simp add: var_ddof1_def Let_def)
  then have "?g z = NaN"
    by (simp add: truthy_def fne_def)
  ultimately show ?thesis by simp
qed

theorem single_replicate_variance_is_nan_witness:
  "map_of (calculate_variances single_column_row) 0 = Some NaN
   \<and> weights single_column_row = [NaN]"
proof -
  have a: "0 \<in> set (zt_times single_column_row)"
    by (simp add: zt_times_def single_column_row_def)
  have b: "length (filter (\<lambda>(c, v). zt c = 0) single_column_row) < 2"
    by (simp add: single_column_row_def)
  have c: "calculate_variances single_column_row = [(0, NaN)]"
    by (simp add: calculate_variances_def single_column_row_def zt_times_def np_unique_def
        var_ddof1_def truthy_def fne_def)
  have "weights single_column_row = [NaN]"
    unfolding weights_def Let_def c
    by (simp add: timepoints_def single_column_row_def fne_def)
  then show ?thesis
    using single_replicate_variance_is_nan [OF a b] by simp
qed

section \<open>The best fit\<close>

lemma flt_neq: "flt a b \<Longrightarrow> a \<noteq> b"
  by (cases a; cases b) auto

lemma foldl_fmin_NaN: "foldl fmin NaN ys = NaN"
  by (induction ys) (simp_all add: fmin_def)

lemma fmin_take: "flt x mp \<Longrightarrow> fmin mp x = x"
  by (cases x; cases mp) (auto simp: fmin_def)

lemma fmin_keep: "\<not> isnan mp \<Longrightarrow> fge x mp \<Longrightarrow> fmin mp x = mp"
  by (cases x; cases mp) (auto simp: fmin_def fge_def fle_def)

lemma fge_not_nan: "fge x mp \<Longrightarrow> \<not> isnan x"
  by (cases x; cases mp) (auto simp: fge_def fle_def)

lemma argmin_loop_min:
  assumes "\<not> isnan mp"
  shows "(argmin_loop mp m i ys = m \<and> foldl fmin mp ys = mp)
       \<or> (\<exists>k<length ys. argmin_loop mp m i ys = i + k \<and> ys ! k = foldl fmin mp ys
             \<and> (isnan (ys ! k) \<or> flt (ys ! k) mp)
             \<and> (\<forall>j<k. \<not> isnan (ys ! j) \<and> (isnan (ys ! k) \<or> flt (ys ! k) (ys ! j))))"
  using assms
proof (induction ys arbitrary: mp m i)
  case Nil
  then show ?case by simp
next
  case (Cons x xs)
  show ?case
  proof (cases "fge x mp")
    case True
    then have xn: "\<not> isnan x" by (rule fge_not_nan)
    have keep: "fmin mp x = mp" using fmin_keep [OF Cons.prems True] .
    have step: "argmin_loop mp m i (x # xs) = argmin_loop mp m (Suc i) xs" using True by simp
    have le: "fle mp x" using True by (simp add: fge_def)
    from Cons.IH [OF Cons.prems, of m "Suc i"] show ?thesis
    proof
      assume "argmin_loop mp m (Suc i) xs = m \<and> foldl fmin mp xs = mp"
      then show ?thesis using step keep by simp
    next
      assume "\<exists>k<length xs. argmin_loop mp m (Suc i) xs = Suc i + k \<and> xs ! k = foldl fmin mp xs
             \<and> (isnan (xs ! k) \<or> flt (xs ! k) mp)
             \<and> (\<forall>j<k. \<not> isnan (xs ! j) \<and> (isnan (xs ! k) \<or> flt (xs ! k) (xs ! j)))"
      then obtain k where k: "k < length xs" "argmin_loop mp m (Suc i) xs = Suc i + k"
        "xs ! k = foldl fmin mp xs" "isnan (xs ! k) \<or> flt (xs ! k) mp"
        "\<forall>j<k. \<not> isnan (xs ! j) \<and> (isnan (xs ! k) \<or> flt (xs ! k) (xs ! j))" by blast
      have x0: "isnan (xs ! k) \<or> flt (xs ! k) x"
        using k(4) le flt_fle_trans by blast
      have "Suc k < length (x # xs) \<and> argmin_loop mp m i (x # xs) = i + Suc k
            \<and> (x # xs) ! Suc k = foldl fmin mp (x # xs)
            \<and> (isnan ((x # xs) ! Suc k) \<or> flt ((x # xs) ! Suc k) mp)
            \<and> (\<forall>j<Suc k. \<not> isnan ((x # xs) ! j)
                  \<and> (isnan ((x # xs) ! Suc k) \<or> flt ((x # xs) ! Suc k) ((x # xs) ! j)))"
        using k step keep xn x0 by (auto simp: less_Suc_eq_0_disj)
      then show ?thesis by blast
    qed
  next
    case False
    show ?thesis
    proof (cases "isnan x")
      case True
      then have "x = NaN" by (cases x) auto
      then have "0 < length (x # xs) \<and> argmin_loop mp m i (x # xs) = i + 0
            \<and> (x # xs) ! 0 = foldl fmin mp (x # xs)
            \<and> (isnan ((x # xs) ! 0) \<or> flt ((x # xs) ! 0) mp)
            \<and> (\<forall>j<0. \<not> isnan ((x # xs) ! j)
                  \<and> (isnan ((x # xs) ! 0) \<or> flt ((x # xs) ! 0) ((x # xs) ! j)))"
        using False Cons.prems by (simp add: foldl_fmin_NaN fmin_def)
      then show ?thesis by blast
    next
      case xn: False
      then have lt: "flt x mp" using False Cons.prems fge_or_flt by blast
      have take: "fmin mp x = x" using fmin_take [OF lt] .
      have step: "argmin_loop mp m i (x # xs) = argmin_loop x i (Suc i) xs"
        using False xn by simp
      from Cons.IH [OF xn, of i "Suc i"] show ?thesis
      proof
        assume "argmin_loop x i (Suc i) xs = i \<and> foldl fmin x xs = x"
        then have "0 < length (x # xs) \<and> argmin_loop mp m i (x # xs) = i + 0
            \<and> (x # xs) ! 0 = foldl fmin mp (x # xs)
            \<and> (isnan ((x # xs) ! 0) \<or> flt ((x # xs) ! 0) mp)
            \<and> (\<forall>j<0. \<not> isnan ((x # xs) ! j)
                  \<and> (isnan ((x # xs) ! 0) \<or> flt ((x # xs) ! 0) ((x # xs) ! j)))"
          using step take lt by simp
        then show ?thesis by blast
      next
        assume "\<exists>k<length xs. argmin_loop x i (Suc i) xs = Suc i + k \<and> xs ! k = foldl fmin x xs
             \<and> (isnan (xs ! k) \<or> flt (xs ! k) x)
             \<and> (\<forall>j<k. \<not> isnan (xs ! j) \<and> (isnan (xs ! k) \<or> flt (xs ! k) (xs ! j)))"
        then obtain k where k: "k < length xs" "argmin_loop x i (Suc i) xs = Suc i + k"
          "xs ! k = foldl fmin x xs" "isnan (xs ! k) \<or> flt (xs ! k) x"
          "\<forall>j<k. \<not> isnan (xs ! j) \<and> (isnan (xs ! k) \<or> flt (xs ! k) (xs ! j))" by blast
        have m0: "isnan (xs ! k) \<or> flt (xs ! k) mp"
          using k(4) lt flt_trans by blast
        have "Suc k < length (x # xs) \<and> argmin_loop mp m i (x # xs) = i + Suc k
            \<and> (x # xs) ! Suc k = foldl fmin mp (x # xs)
            \<and> (isnan ((x # xs) ! Suc k) \<or> flt ((x # xs) ! Suc k) mp)
            \<and> (\<forall>j<Suc k. \<not> isnan ((x # xs) ! j)
                  \<and> (isnan ((x # xs) ! Suc k) \<or> flt ((x # xs) ! Suc k) ((x # xs) ! j)))"
          using k step take xn m0 by (auto simp: less_Suc_eq_0_disj)
        then show ?thesis by blast
      qed
    qed
  qed
qed

lemma isnan_neq: "\<not> isnan a \<Longrightarrow> isnan b \<Longrightarrow> a \<noteq> b"
  by auto

lemma np_argmin_is_np_min:
  assumes "np_argmin xs = Inr i"
  shows "np_min xs = Inr (xs ! i) \<and> (\<forall>j<i. xs ! j \<noteq> xs ! i)"
proof (cases xs)
  case Nil
  then show ?thesis using assms by simp
next
  case (Cons x ys)
  show ?thesis
  proof (cases "isnan x")
    case True
    then have "x = NaN" by (cases x) auto
    then show ?thesis using assms Cons by (simp add: foldl_fmin_NaN)
  next
    case False
    then have i: "i = argmin_loop x 0 1 ys" using assms Cons by simp
    from argmin_loop_min [OF False, of 0 1 ys] show ?thesis
    proof
      assume "argmin_loop x 0 1 ys = 0 \<and> foldl fmin x ys = x"
      then show ?thesis using i Cons by simp
    next
      assume "\<exists>k<length ys. argmin_loop x 0 1 ys = 1 + k \<and> ys ! k = foldl fmin x ys
             \<and> (isnan (ys ! k) \<or> flt (ys ! k) x)
             \<and> (\<forall>j<k. \<not> isnan (ys ! j) \<and> (isnan (ys ! k) \<or> flt (ys ! k) (ys ! j)))"
      then obtain k where k: "k < length ys" "argmin_loop x 0 1 ys = 1 + k"
        "ys ! k = foldl fmin x ys" "isnan (ys ! k) \<or> flt (ys ! k) x"
        "\<forall>j<k. \<not> isnan (ys ! j) \<and> (isnan (ys ! k) \<or> flt (ys ! k) (ys ! j))" by blast
      have a: "x \<noteq> ys ! k" using k(4) False flt_neq by auto
      have b: "\<forall>j<k. ys ! j \<noteq> ys ! k"
      proof (intro allI impI)
        fix j assume "j < k"
        then have "\<not> isnan (ys ! j)" and "isnan (ys ! k) \<or> flt (ys ! k) (ys ! j)"
          using k(5) by auto
        then show "ys ! j \<noteq> ys ! k" using flt_neq [of "ys ! k" "ys ! j"] by auto
      qed
      show ?thesis using i k(1,2,3) a b Cons by (auto simp: less_Suc_eq_0_disj)
    qed
  qed
qed

lemma model_fits_Inr:
  assumes "model_fits L df_row = Inr (h, s, c, t)"
  shows "\<exists>amax amin. np_max (amplitudes df_row) = Inr amax \<and> np_min (amplitudes df_row) = Inr amin
           \<and> h = try_fit L (harmonic_args df_row amax) df_row
           \<and> s = try_fit L (square_args df_row amax) df_row
           \<and> c = try_fit L (cycloid_args df_row amax) df_row
           \<and> t = try_fit L (transient_args df_row amin) df_row"
  using assms by (auto simp: model_fits_def split: sum.splits)

lemma model_fits_nonempty:
  assumes "df_row \<noteq> []"
  shows "\<exists>h s c t. model_fits L df_row = Inr (h, s, c, t)"
proof -
  obtain x xs where "amplitudes df_row = x # xs"
    using assms by (cases df_row) (auto simp: amplitudes_def)
  then show ?thesis by (simp add: model_fits_def)
qed

lemma model_fits_empty: "model_fits L [] = Inl ValueError"
  by (simp add: model_fits_def amplitudes_def)

lemma select_best_index:
  "\<exists>i<4. np_argmin (sse_values (h, s, c, t)) = Inr i
        \<and> select_best (h, s, c, t)
            = Inr (waveform_names ! i,
                   params ([h, s, c, t] ! i), cov ([h, s, c, t] ! i),
                   fitted_values ([h, s, c, t] ! i))"
proof -
  obtain i where i: "np_argmin (sse_values (h, s, c, t)) = Inr i"
    by (auto simp: sse_values_def)
  then have "i < 4" using np_argmin_less [OF i] by (simp add: sse_values_def)
  then have "i = 0 \<or> i = 1 \<or> i = 2 \<or> i = 3" by auto
  then have "select_best (h, s, c, t)
            = Inr (waveform_names ! i,
                   params ([h, s, c, t] ! i), cov ([h, s, c, t] ! i),
                   fitted_values ([h, s, c, t] ! i))"
    using i by (auto simp: select_best_def waveform_names_def)
  then show ?thesis using i \<open>i < 4\<close> by blast
qed

lemma fit_best_waveform_index:
  assumes "model_fits L df_row = Inr (h, s, c, t)"
  shows "\<exists>i<4. np_argmin (sse_values (h, s, c, t)) = Inr i
        \<and> fit_best_waveform L df_row
            = Inr (waveform_names ! i, params ([h, s, c, t] ! i), cov ([h, s, c, t] ! i),
                   fitted_values ([h, s, c, t] ! i))"
  using select_best_index [of h s c t] assms by (simp add: fit_best_waveform_def)

lemma try_fit_raises: "fit_body L args = Inl e \<Longrightarrow> try_fit L args df_row = fit_fallback df_row"
  by (simp add: try_fit_def)

lemma call_model_harmonic_length:
  "call_model Extended_harmonic_oscillator ts ps = Inr f \<Longrightarrow> length ps = 5"
  by (erule call_model.elims) auto

lemma try_fit_harmonic_cases:
  "try_fit L (harmonic_args df_row amax) df_row = fit_fallback df_row
   \<or> (\<exists>ps. params (try_fit L (harmonic_args df_row amax) df_row) = Params ps \<and> length ps = 5)"
proof (cases "fit_body L (harmonic_args df_row amax)")
  case (Inl e)
  then show ?thesis by (simp add: try_fit_def)
next
  case (Inr r)
  then obtain popt pcov fitted where
    "curve_fit L (harmonic_args df_row amax) = Inr (popt, pcov)"
    "call_model Extended_harmonic_oscillator (xdata (harmonic_args df_row amax)) popt = Inr fitted"
    "params r = Params popt"
    by (auto simp: fit_body_def harmonic_args_def Let_def split: sum.splits)
  then show ?thesis using Inr call_model_harmonic_length by (auto simp: try_fit_def)
qed

lemma waveform_name_harmonic: "i < 4 \<Longrightarrow> (waveform_names ! i = ''harmonic_oscillator'') = (i = 0)"
  by (auto simp: waveform_names_def less_Suc_eq numeral_eq_Suc)

lemma process_row_returns:
  assumes contract: "constant_input_not_significant L"
    and fits: "model_fits L df_row = Inr (h, s, c, t)"
  shows "\<exists>p osc ps. process_row L df_row = Inr (p, osc, ps)"
proof -
  obtain i where i: "i < 4" "np_argmin (sse_values (h, s, c, t)) = Inr i"
    and best: "fit_best_waveform L df_row
            = Inr (waveform_names ! i, params ([h, s, c, t] ! i), cov ([h, s, c, t] ! i),
                   fitted_values ([h, s, c, t] ! i))"
    using fit_best_waveform_index [OF fits] by blast
  obtain tau p where kt: "kendalltau L (fitted_values ([h, s, c, t] ! i)) (amplitudes df_row) = (tau, p)"
    by (cases "kendalltau L (fitted_values ([h, s, c, t] ! i)) (amplitudes df_row)") auto
  show ?thesis
  proof (cases "flt p (Fin 0.05) \<and> i = 0")
    case False
    then show ?thesis using best kt i(1)
      by (auto simp: process_row_def waveform_name_harmonic)
  next
    case True
    then have i0: "i = 0" and sig: "flt p (Fin 0.05)" by simp_all
    obtain amax where h: "h = try_fit L (harmonic_args df_row amax) df_row"
      using model_fits_Inr [OF fits] by blast
    from try_fit_harmonic_cases [of L df_row amax] show ?thesis
    proof
      assume "try_fit L (harmonic_args df_row amax) df_row = fit_fallback df_row"
      then have "fitted_values h = replicate (length df_row) (Fin 0)"
        using h by (simp add: fit_fallback_def)
      moreover have "\<not> flt (snd (kendalltau L (replicate (length df_row) (Fin 0)) (amplitudes df_row))) (Fin 0.05)"
        using contract unfolding constant_input_not_significant_def by blast
      ultimately have "\<not> flt p (Fin 0.05)"
        using kt i0 by simp
      then show ?thesis using sig by simp
    next
      assume "\<exists>ps. params (try_fit L (harmonic_args df_row amax) df_row) = Params ps \<and> length ps = 5"
      then obtain ps where "params h = Params ps" "length ps = 5" using h by auto
      then show ?thesis using best kt i0
        by (simp add: process_row_def waveform_names_def)
    qed
  qed
qed

lemma all_inf_iff: "list_all (\<lambda>y. y = PInf) (sse_values (h, s, c, t))
    = (sse h = PInf \<and> sse s = PInf \<and> sse c = PInf \<and> sse t = PInf)"
  by (simp add: sse_values_def)

lemma np_argmin_all_inf:
  assumes "np_argmin xs = Inr i" and "list_all (\<lambda>y. y = PInf) xs"
  shows "i = 0"
proof -
  have "i < length xs" using np_argmin_less [OF assms(1)] .
  then have "xs ! i = PInf" using assms(2) by (simp add: list_all_length)
  then show ?thesis using np_argmin_inf [OF assms(1)] by simp
qed

text \<open>
  C4.  For every feature row on which the four fits are reached, the best model is the
  first of harmonic, square, cycloid, transient whose SSE is the minimum of the four:
  its SSE is \<open>np.min\<close> of the four and no earlier SSE equals it; when no SSE is NaN it is
  below or equal to every SSE and strictly below every earlier one.  When the four SSE
  are all \<open>+inf\<close> the harmonic oscillator is selected; when all four fits fail, the fitter
  returns the harmonic oscillator with the undefined markers and the zero vector, and
  the feature gets its entry (with no call) as long as the rank test does not report
  \<open>p < 0.05\<close> for the all-zero fitted values, which scipy never does.
\<close>

theorem best_fit_is_first_minimum:
  assumes "model_fits L df_row = Inr (h, s, c, t)"
  shows "\<exists>i<4.
      fit_best_waveform L df_row
        = Inr (waveform_names ! i, params ([h, s, c, t] ! i), cov ([h, s, c, t] ! i),
               fitted_values ([h, s, c, t] ! i))
    \<and> np_min (sse_values (h, s, c, t)) = Inr (sse_values (h, s, c, t) ! i)
    \<and> (\<forall>j<i. sse_values (h, s, c, t) ! j \<noteq> sse_values (h, s, c, t) ! i)
    \<and> (list_all (\<lambda>x. \<not> isnan x) (sse_values (h, s, c, t))
         \<longrightarrow> list_all (\<lambda>x. fle (sse_values (h, s, c, t) ! i) x) (sse_values (h, s, c, t))
           \<and> (\<forall>j<i. flt (sse_values (h, s, c, t) ! i) (sse_values (h, s, c, t) ! j)))
    \<and> (sse h = PInf \<and> sse s = PInf \<and> sse c = PInf \<and> sse t = PInf \<longrightarrow> i = 0)
    \<and> (h = fit_fallback df_row \<and> s = fit_fallback df_row \<and> c = fit_fallback df_row
          \<and> t = fit_fallback df_row
         \<longrightarrow> fit_best_waveform L df_row
               = Inr (''harmonic_oscillator'', Nan_params, Nan_cov,
                      replicate (length df_row) (Fin 0))
           \<and> (constant_input_not_significant L
                \<longrightarrow> (\<exists>p. process_row L df_row = Inr (p, No_call, Nan_params))))"
proof -
  obtain i where i: "i < 4" "np_argmin (sse_values (h, s, c, t)) = Inr i"
    and best: "fit_best_waveform L df_row
            = Inr (waveform_names ! i, params ([h, s, c, t] ! i), cov ([h, s, c, t] ! i),
                   fitted_values ([h, s, c, t] ! i))"
    using fit_best_waveform_index [OF assms] by blast
  have a: "np_min (sse_values (h, s, c, t)) = Inr (sse_values (h, s, c, t) ! i)
      \<and> (\<forall>j<i. sse_values (h, s, c, t) ! j \<noteq> sse_values (h, s, c, t) ! i)"
    using np_argmin_is_np_min [OF i(2)] .
  have b: "list_all (\<lambda>x. \<not> isnan x) (sse_values (h, s, c, t))
         \<longrightarrow> list_all (\<lambda>x. fle (sse_values (h, s, c, t) ! i) x) (sse_values (h, s, c, t))
           \<and> (\<forall>j<i. flt (sse_values (h, s, c, t) ! i) (sse_values (h, s, c, t) ! j))"
    using np_argmin_first_minimum [OF i(2)] by blast
  have c: "sse h = PInf \<and> sse s = PInf \<and> sse c = PInf \<and> sse t = PInf \<longrightarrow> i = 0"
    using np_argmin_all_inf [OF i(2)] by (simp add: all_inf_iff)
  have d: "h = fit_fallback df_row \<and> s = fit_fallback df_row \<and> c = fit_fallback df_row
          \<and> t = fit_fallback df_row
         \<longrightarrow> fit_best_waveform L df_row
               = Inr (''harmonic_oscillator'', Nan_params, Nan_cov,
                      replicate (length df_row) (Fin 0))
           \<and> (constant_input_not_significant L
                \<longrightarrow> (\<exists>p. process_row L df_row = Inr (p, No_call, Nan_params)))"
  proof (intro impI)
    assume fb: "h = fit_fallback df_row \<and> s = fit_fallback df_row \<and> c = fit_fallback df_row
          \<and> t = fit_fallback df_row"
    then have "sse h = PInf \<and> sse s = PInf \<and> sse c = PInf \<and> sse t = PInf"
      by (simp add: fit_fallback_def)
    then have i0: "i = 0" using c by simp
    have w: "fit_best_waveform L df_row
               = Inr (''harmonic_oscillator'', Nan_params, Nan_cov,
                      replicate (length df_row) (Fin 0))"
      using best i0 fb by (simp add: waveform_names_def fit_fallback_def)
    have "constant_input_not_significant L
                \<longrightarrow> (\<exists>p. process_row L df_row = Inr (p, No_call, Nan_params))"
    proof
      assume "constant_input_not_significant L"
      then have "\<not> flt (snd (kendalltau L (replicate (length df_row) (Fin 0)) (amplitudes df_row))) (Fin 0.05)"
        unfolding constant_input_not_significant_def by blast
      then show "\<exists>p. process_row L df_row = Inr (p, No_call, Nan_params)"
        using w by (auto simp: process_row_def split: prod.splits)
    qed
    then show "fit_best_waveform L df_row
               = Inr (''harmonic_oscillator'', Nan_params, Nan_cov,
                      replicate (length df_row) (Fin 0))
           \<and> (constant_input_not_significant L
                \<longrightarrow> (\<exists>p. process_row L df_row = Inr (p, No_call, Nan_params)))"
      using w by simp
  qed
  show ?thesis using i(1) best a b c d by blast
qed

text \<open>
  C7, as amended.  If the try block of model \<open>k\<close> raises (the solver raises, or the
  model function cannot be called), then the parameters and the covariance of that
  model are the undefined marker, its fitted values are a zero vector as long as the
  row, and its SSE is \<open>+inf\<close>; the fitter still returns a best fit, and the feature
  gets its entry as long as the rank test does not report \<open>p < 0.05\<close> for all-zero
  fitted values.  The failed model is the selected one exactly when it is the harmonic
  model and the SSE of all four models is \<open>+inf\<close>; in every other case it loses.
\<close>

theorem failed_fit_falls_back:
  assumes amax: "np_max (amplitudes df_row) = Inr amax"
    and amin: "np_min (amplitudes df_row) = Inr amin"
    and k: "k < 4"
    and raises: "fit_body L (model_args df_row amax amin ! k) = Inl e"
  shows "\<exists>h s c t.
      model_fits L df_row = Inr (h, s, c, t)
    \<and> [h, s, c, t] ! k
        = \<lparr>params = Nan_params, cov = Nan_cov,
           fitted_values = replicate (length df_row) (Fin 0), sse = PInf\<rparr>
    \<and> (\<exists>i<4. fit_best_waveform L df_row
                = Inr (waveform_names ! i, params ([h, s, c, t] ! i), cov ([h, s, c, t] ! i),
                       fitted_values ([h, s, c, t] ! i))
             \<and> ((i = k) = (k = 0 \<and> sse h = PInf \<and> sse s = PInf \<and> sse c = PInf \<and> sse t = PInf)))
    \<and> (constant_input_not_significant L \<longrightarrow> (\<exists>p osc ps. process_row L df_row = Inr (p, osc, ps)))"
proof -
  define h where "h = try_fit L (harmonic_args df_row amax) df_row"
  define s where "s = try_fit L (square_args df_row amax) df_row"
  define c where "c = try_fit L (cycloid_args df_row amax) df_row"
  define t where "t = try_fit L (transient_args df_row amin) df_row"
  have fits: "model_fits L df_row = Inr (h, s, c, t)"
    using amax amin by (simp add: model_fits_def h_def s_def c_def t_def)
  have "k = 0 \<or> k = 1 \<or> k = 2 \<or> k = 3" using k by auto
  then have fb: "[h, s, c, t] ! k = fit_fallback df_row"
    using raises by (auto simp: model_args_def h_def s_def c_def t_def try_fit_raises)
  then have ssek: "sse_values (h, s, c, t) ! k = PInf"
    using \<open>k = 0 \<or> k = 1 \<or> k = 2 \<or> k = 3\<close> by (auto simp: sse_values_def fit_fallback_def)
  obtain i where i: "i < 4" "np_argmin (sse_values (h, s, c, t)) = Inr i"
    and best: "fit_best_waveform L df_row
            = Inr (waveform_names ! i, params ([h, s, c, t] ! i), cov ([h, s, c, t] ! i),
                   fitted_values ([h, s, c, t] ! i))"
    using fit_best_waveform_index [OF fits] by blast
  have sel: "(i = k) = (k = 0 \<and> sse h = PInf \<and> sse s = PInf \<and> sse c = PInf \<and> sse t = PInf)"
  proof
    assume "i = k"
    then show "k = 0 \<and> sse h = PInf \<and> sse s = PInf \<and> sse c = PInf \<and> sse t = PInf"
      using np_argmin_inf [OF i(2)] ssek by (simp add: all_inf_iff)
  next
    assume "k = 0 \<and> sse h = PInf \<and> sse s = PInf \<and> sse c = PInf \<and> sse t = PInf"
    then show "i = k" using np_argmin_all_inf [OF i(2)] by (simp add: all_inf_iff)
  qed
  have ret: "constant_input_not_significant L \<longrightarrow> (\<exists>p osc ps. process_row L df_row = Inr (p, osc, ps))"
    using process_row_returns [OF _ fits] by blast
  have "[h, s, c, t] ! k
        = \<lparr>params = Nan_params, cov = Nan_cov,
           fitted_values = replicate (length df_row) (Fin 0), sse = PInf\<rparr>"
    using fb by (simp add: fit_fallback_def)
  then show ?thesis using fits i(1) best sel ret by blast
qed


lemma example_extremes:
  "np_max (amplitudes example_row) = Inr (Fin 6)" "np_min (amplitudes example_row) = Inr (Fin 1)"
  by (simp_all add: amplitudes_def example_row_def fmax_def fmin_def)

lemma timepoints_example:
  "timepoints example_row = [Fin 0, Fin 0, Fin (pi / 2), Fin (pi / 2)]"
  by (simp add: timepoints_def example_row_def)

lemma amplitudes_example: "amplitudes example_row = [Fin 1, Fin 3, Fin 2, Fin 6]"
  by (simp add: amplitudes_def example_row_def)

lemma flat_square_fitted:
  "map (\<lambda>t. pseudo_square_wave t (Fin 0) (Fin 0) (Fin (1 / 2)) (Fin 0) (Fin 2))
       (timepoints example_row) = [Fin 2, Fin 2, Fin 2, Fin 2]"
  by (simp add: timepoints_example pseudo_square_wave_def)

lemma flat_cycloid_fitted:
  "map (\<lambda>t. pseudo_cycloid_wave t (Fin 0) (Fin 0) (Fin (1 / 2)) (Fin 0) (Fin 2))
       (timepoints example_row) = [Fin 2, Fin 2, Fin 2, Fin 2]"
  by (simp add: timepoints_example pseudo_cycloid_wave_def)

lemma flat_square:
  "try_fit flat_library (square_args example_row (Fin 6)) example_row = flat_fit"
  by (simp add: try_fit_def fit_body_def flat_library_def square_args_def flat_square_fitted
      amplitudes_example fsub_def fsum_def flat_fit_def)

lemma flat_cycloid:
  "try_fit flat_library (cycloid_args example_row (Fin 6)) example_row = flat_fit"
  by (simp add: try_fit_def fit_body_def flat_library_def cycloid_args_def flat_cycloid_fitted
      amplitudes_example fsub_def fsum_def flat_fit_def)

lemma flat_harmonic:
  "try_fit flat_library (harmonic_args example_row (Fin 6)) example_row = fit_fallback example_row"
  by (simp add: try_fit_def fit_body_def flat_library_def harmonic_args_def)

lemma flat_transient:
  "try_fit flat_library (transient_args example_row (Fin 1)) example_row = fit_fallback example_row"
  by (simp add: try_fit_def fit_body_def flat_library_def transient_args_def)

lemma flat_model_fits:
  "model_fits flat_library example_row
     = Inr (fit_fallback example_row, flat_fit, flat_fit, fit_fallback example_row)"
  by (simp add: model_fits_def example_extremes flat_square flat_cycloid flat_harmonic flat_transient)

lemma failing_model_fits:
  "model_fits failing_library example_row
     = Inr (fit_fallback example_row, fit_fallback example_row, fit_fallback example_row,
            fit_fallback example_row)"
  by (simp add: model_fits_def example_extremes try_fit_def fit_body_def failing_library_def)

lemma failing_contract: "constant_input_not_significant failing_library"
  by (simp add: constant_input_not_significant_def failing_library_def)

lemma flat_contract: "constant_input_not_significant flat_library"
  by (simp add: constant_input_not_significant_def flat_library_def list_all_length)

theorem best_fit_is_first_minimum_witness:
  "fit_best_waveform flat_library example_row
     = Inr (''square_waveform'', Params [Fin 0, Fin 0, Fin 0.5, Fin 0, Fin 2], Cov [],
            [Fin 2, Fin 2, Fin 2, Fin 2])
   \<and> sse_values (fit_fallback example_row, flat_fit, flat_fit, fit_fallback example_row)
       = [PInf, Fin 18, Fin 18, PInf]
   \<and> fit_best_waveform failing_library example_row
       = Inr (''harmonic_oscillator'', Nan_params, Nan_cov, [Fin 0, Fin 0, Fin 0, Fin 0])
   \<and> (\<exists>p. process_row failing_library example_row = Inr (p, No_call, Nan_params))"
proof -
  have v: "sse_values (fit_fallback example_row, flat_fit, flat_fit, fit_fallback example_row)
       = [PInf, Fin 18, Fin 18, PInf]"
    by (simp add: sse_values_def fit_fallback_def flat_fit_def)
  obtain i where i: "i < 4"
     "fit_best_waveform flat_library example_row
        = Inr (waveform_names ! i,
               params ([fit_fallback example_row, flat_fit, flat_fit, fit_fallback example_row] ! i),
               cov ([fit_fallback example_row, flat_fit, flat_fit, fit_fallback example_row] ! i),
               fitted_values ([fit_fallback example_row, flat_fit, flat_fit, fit_fallback example_row] ! i))"
     "np_min [PInf, Fin 18, Fin 18, PInf] = Inr ([PInf, Fin 18, Fin 18, PInf] ! i)"
     "\<forall>j<i. [PInf, Fin 18, Fin 18, PInf] ! j \<noteq> [PInf, Fin 18, Fin 18, PInf] ! i"
    using best_fit_is_first_minimum [OF flat_model_fits] unfolding v by blast
  have "i = 0 \<or> i = 1 \<or> i = 2 \<or> i = 3" using i(1) by auto
  then have "i = 1" using i(3,4) by (auto simp: fmin_def dest: spec [of _ 1])
  then have a: "fit_best_waveform flat_library example_row
     = Inr (''square_waveform'', Params [Fin 0, Fin 0, Fin 0.5, Fin 0, Fin 2], Cov [],
            [Fin 2, Fin 2, Fin 2, Fin 2])"
    using i(2) by (simp add: waveform_names_def flat_fit_def)
  have "fit_best_waveform failing_library example_row
       = Inr (''harmonic_oscillator'', Nan_params, Nan_cov, replicate (length example_row) (Fin 0))
     \<and> (\<exists>p. process_row failing_library example_row = Inr (p, No_call, Nan_params))"
    using best_fit_is_first_minimum [OF failing_model_fits] failing_contract by blast
  then show ?thesis using a v by (simp add: example_row_def)
qed

theorem failed_fit_falls_back_witness:
  "fit_body flat_library (model_args example_row (Fin 6) (Fin 1) ! 0) = Inl RuntimeError
   \<and> (\<exists>i<4. i \<noteq> 0
         \<and> fit_best_waveform flat_library example_row
             = Inr (waveform_names ! i,
                    params ([fit_fallback example_row, flat_fit, flat_fit, fit_fallback example_row] ! i),
                    cov ([fit_fallback example_row, flat_fit, flat_fit, fit_fallback example_row] ! i),
                    fitted_values ([fit_fallback example_row, flat_fit, flat_fit, fit_fallback example_row] ! i)))
   \<and> (\<exists>p osc ps. process_row flat_library example_row = Inr (p, osc, ps))"
proof -
  have r: "fit_body flat_library (model_args example_row (Fin 6) (Fin 1) ! 0) = Inl RuntimeError"
    by (simp add: model_args_def fit_body_def flat_library_def harmonic_args_def)
  have k: "(0::nat) < 4" by simp
  obtain h s c t where f: "model_fits flat_library example_row = Inr (h, s, c, t)"
    and sel: "\<exists>i<4. fit_best_waveform flat_library example_row
                = Inr (waveform_names ! i, params ([h, s, c, t] ! i), cov ([h, s, c, t] ! i),
                       fitted_values ([h, s, c, t] ! i))
             \<and> ((i = 0) = ((0::nat) = 0 \<and> sse h = PInf \<and> sse s = PInf \<and> sse c = PInf \<and> sse t = PInf))"
    and ret: "constant_input_not_significant flat_library
               \<longrightarrow> (\<exists>p osc ps. process_row flat_library example_row = Inr (p, osc, ps))"
    using failed_fit_falls_back [OF example_extremes(1) example_extremes(2) k r] by blast
  have "h = fit_fallback example_row \<and> s = flat_fit \<and> c = flat_fit \<and> t = fit_fallback example_row"
    using f unfolding flat_model_fits by auto
  then have hs: "h = fit_fallback example_row" "s = flat_fit" "c = flat_fit" "t = fit_fallback example_row"
    by blast+
  have "sse s \<noteq> PInf" using hs by (simp add: flat_fit_def)
  then show ?thesis using r sel ret flat_contract unfolding hs by auto
qed

text \<open>
  C7 as stated fails when every fit fails: the harmonic fit raises and the harmonic
  model is the one selected.
\<close>

theorem failed_harmonic_fit_is_selected:
  "fit_body failing_library (model_args example_row (Fin 6) (Fin 1) ! 0) = Inl RuntimeError
   \<and> np_max (amplitudes example_row) = Inr (Fin 6)
   \<and> np_min (amplitudes example_row) = Inr (Fin 1)
   \<and> fit_best_waveform failing_library example_row
       = Inr (''harmonic_oscillator'', Nan_params, Nan_cov, [Fin 0, Fin 0, Fin 0, Fin 0])"
proof -
  have "fit_body failing_library (model_args example_row (Fin 6) (Fin 1) ! 0) = Inl RuntimeError"
    by (simp add: model_args_def fit_body_def failing_library_def)
  moreover have "fit_best_waveform failing_library example_row
       = Inr (''harmonic_oscillator'', Nan_params, Nan_cov,
              replicate (length example_row) (Fin 0))"
    by (simp add: fit_best_waveform_def failing_model_fits select_best_def sse_values_def
        fit_fallback_def fge_def fle_def)
  moreover have "replicate (length example_row) (Fin 0) = [Fin 0, Fin 0, Fin 0, Fin 0]"
    by (simp add: example_row_def)
  ultimately show ?thesis using example_extremes by simp
qed

section \<open>The pipeline\<close>

lemma pycycle_loop_Inr:
  "pycycle_loop L rows = Inr results \<Longrightarrow> list_all2 (\<lambda>r x. process_row L r = Inr x) rows results"
proof (induction rows arbitrary: results)
  case Nil
  then show ?case by simp
next
  case (Cons r rs)
  then show ?case by (auto split: sum.splits)
qed

lemma pycycle_loop_returns:
  "list_all (\<lambda>r. \<exists>x. process_row L r = Inr x) rows \<Longrightarrow> \<exists>results. pycycle_loop L rows = Inr results"
  by (induction rows) auto

lemma positions_filter:
  "map (\<lambda>i. xs ! i) (filter (\<lambda>i. P (xs ! i)) [0..<length xs]) = filter P xs"
proof -
  have "filter P xs = filter P (map (\<lambda>i. xs ! i) [0..<length xs])"
    by (simp add: map_nth)
  also have "\<dots> = map (\<lambda>i. xs ! i) (filter (\<lambda>i. P (xs ! i)) [0..<length xs])"
    by (simp add: filter_map comp_def)
  finally show ?thesis by simp
qed

lemma positions_filter_length:
  "length (filter (\<lambda>i. P (xs ! i)) [0..<length xs]) = length (filter P xs)"
  using positions_filter [of xs P, THEN arg_cong, of length] by simp

lemma non_nan_positions_length:
  "length (filter (\<lambda>i. \<not> isnan (items ! i)) [0..<length items])
     = length (filter (\<lambda>v. \<not> isnan v) items)"
  using positions_filter_length [of "\<lambda>v. \<not> isnan v" items] by simp

lemma non_nan_positions:
  "map (\<lambda>i. items ! i) (filter (\<lambda>i. \<not> isnan (items ! i)) [0..<length items])
     = filter (\<lambda>v. \<not> isnan v) items"
  using positions_filter [of items "\<lambda>v. \<not> isnan v"] by simp

lemma nan_positions:
  "map (\<lambda>i. items ! i) (filter (\<lambda>i. isnan (items ! i)) [0..<length items])
     = filter isnan items"
  using positions_filter [of items isnan] by simp

lemma nargsort_Inr:
  assumes "nargsort L items = Inr indexer"
  shows "\<exists>sorter. sorter = argsort L (filter (\<lambda>v. \<not> isnan v) items)
      \<and> list_all (\<lambda>j. j < length (filter (\<lambda>v. \<not> isnan v) items)) sorter
      \<and> indexer = map (\<lambda>j. filter (\<lambda>i. \<not> isnan (items ! i)) [0..<length items] ! j) sorter
                    @ filter (\<lambda>i. isnan (items ! i)) [0..<length items]"
  using assms by (auto simp: nargsort_def Let_def non_nan_positions_length split: if_splits)

lemma nargsort_in_range:
  assumes "nargsort L items = Inr indexer"
  shows "list_all (\<lambda>i. i < length items) indexer"
proof -
  let ?nn = "filter (\<lambda>i. \<not> isnan (items ! i)) [0..<length items]"
  obtain sorter where s: "list_all (\<lambda>j. j < length (filter (\<lambda>v. \<not> isnan v) items)) sorter"
    "indexer = map (\<lambda>j. ?nn ! j) sorter @ filter (\<lambda>i. isnan (items ! i)) [0..<length items]"
    using nargsort_Inr [OF assms] by blast
  have "\<And>j. j < length ?nn \<Longrightarrow> ?nn ! j < length items"
  proof -
    fix j assume "j < length ?nn"
    then have "?nn ! j \<in> set ?nn" by (rule nth_mem)
    then show "?nn ! j < length items" by simp
  qed
  then have "list_all (\<lambda>i. i < length items) (map (\<lambda>j. ?nn ! j) sorter)"
    using s(1) by (simp add: list_all_iff non_nan_positions_length)
  then show ?thesis using s(2) by (auto simp: list_all_iff)
qed

lemma nargsort_keys:
  assumes "nargsort L items = Inr indexer"
  shows "map (\<lambda>i. items ! i) indexer
       = map (\<lambda>j. filter (\<lambda>v. \<not> isnan v) items ! j) (argsort L (filter (\<lambda>v. \<not> isnan v) items))
         @ filter isnan items"
proof -
  let ?nn = "filter (\<lambda>i. \<not> isnan (items ! i)) [0..<length items]"
  let ?vals = "filter (\<lambda>v. \<not> isnan v) items"
  obtain sorter where s: "sorter = argsort L ?vals"
    "list_all (\<lambda>j. j < length ?vals) sorter"
    "indexer = map (\<lambda>j. ?nn ! j) sorter @ filter (\<lambda>i. isnan (items ! i)) [0..<length items]"
    using nargsort_Inr [OF assms] by blast
  have "\<And>j. j < length ?vals \<Longrightarrow> items ! (?nn ! j) = ?vals ! j"
  proof -
    fix j assume j: "j < length ?vals"
    then have "j < length ?nn" by (simp add: non_nan_positions_length)
    then have "map (\<lambda>i. items ! i) ?nn ! j = items ! (?nn ! j)" by simp
    then show "items ! (?nn ! j) = ?vals ! j"
      using non_nan_positions [of items] by simp
  qed
  then have "map (\<lambda>i. items ! i) (map (\<lambda>j. ?nn ! j) sorter) = map (\<lambda>j. ?vals ! j) sorter"
    using s(2) by (simp add: list_all_iff)
  then show ?thesis
    using s(1,3) nan_positions [of items] by simp
qed

lemma nargsort_permutes:
  assumes "nargsort L items = Inr indexer" and "argsort_permutes L"
  shows "mset indexer = mset [0..<length items]"
proof -
  let ?nn = "filter (\<lambda>i. \<not> isnan (items ! i)) [0..<length items]"
  let ?vals = "filter (\<lambda>v. \<not> isnan v) items"
  obtain sorter where s: "sorter = argsort L ?vals"
    "indexer = map (\<lambda>j. ?nn ! j) sorter @ filter (\<lambda>i. isnan (items ! i)) [0..<length items]"
    using nargsort_Inr [OF assms(1)] by blast
  have "mset sorter = mset [0..<length ?nn]"
    using assms(2) s(1) by (simp add: argsort_permutes_def non_nan_positions_length)
  then have "mset (map (\<lambda>j. ?nn ! j) sorter) = mset (map (\<lambda>j. ?nn ! j) [0..<length ?nn])"
    by (metis mset_map)
  then have "mset (map (\<lambda>j. ?nn ! j) sorter) = mset ?nn"
    by (simp add: map_nth)
  then have "mset indexer = mset ?nn + mset (filter (\<lambda>i. isnan (items ! i)) [0..<length items])"
    using s(2) by simp
  also have "\<dots> = mset [0..<length items]"
    using multiset_partition [of "mset [0..<length items]" "\<lambda>i. \<not> isnan (items ! i)"]
    by simp
  finally show ?thesis .
qed

lemma sort_values_Inr:
  assumes "sort_values L by_col df_out = Inr sorted_out"
  shows "\<exists>indexer. nargsort L (map by_col df_out) = Inr indexer
           \<and> list_all (\<lambda>i. i < length df_out) indexer
           \<and> sorted_out = map (\<lambda>i. df_out ! i) indexer"
proof -
  obtain indexer where i: "nargsort L (map by_col df_out) = Inr indexer"
    "sorted_out = map (\<lambda>i. df_out ! i) indexer"
    using assms by (auto simp: sort_values_def split: sum.splits)
  then show ?thesis using nargsort_in_range [OF i(1)] by simp
qed

lemma sort_values_subset:
  assumes "sort_values L by_col df_out = Inr sorted_out"
  shows "set sorted_out \<subseteq> set df_out"
  using sort_values_Inr [OF assms] by (auto simp: list_all_iff)

lemma sort_values_permutes:
  assumes "sort_values L by_col df_out = Inr sorted_out" and "argsort_permutes L"
  shows "mset sorted_out = mset df_out"
proof -
  obtain indexer where i: "nargsort L (map by_col df_out) = Inr indexer"
    "sorted_out = map (\<lambda>i. df_out ! i) indexer"
    using sort_values_Inr [OF assms(1)] by blast
  have "mset indexer = mset [0..<length df_out]"
    using nargsort_permutes [OF i(1) assms(2)] by simp
  then have "mset (map (\<lambda>i. df_out ! i) indexer) = mset (map (\<lambda>i. df_out ! i) [0..<length df_out])"
    by (metis mset_map)
  then show ?thesis using i(2) by (simp add: map_nth)
qed

lemma sort_values_returns:
  assumes "argsort_permutes L"
  shows "\<exists>sorted_out. sort_values L by_col df_out = Inr sorted_out"
proof -
  let ?items = "map by_col df_out"
  let ?vals = "filter (\<lambda>v. \<not> isnan v) ?items"
  have "mset (argsort L ?vals) = mset [0..<length ?vals]"
    using assms by (simp add: argsort_permutes_def)
  then have "set (argsort L ?vals) = set [0..<length ?vals]"
    by (metis set_mset_mset)
  then have "list_all (\<lambda>j. j < length ?vals) (argsort L ?vals)"
    by (simp add: list_all_iff)
  then have "list_all (\<lambda>j. j < length (filter (\<lambda>i. \<not> isnan (?items ! i)) [0..<length ?items]))
                (argsort L ?vals)"
    using non_nan_positions_length [of ?items] by simp
  then show ?thesis by (simp add: sort_values_def nargsort_def Let_def)
qed

lemma df_index_length: "length (df_index df) = length (df_rows df)"
  by (cases df) simp_all

lemma make_df_out_Inr:
  assumes "make_df_out index results corr_pvals = Inr df_out"
    and "length index = length results"
  shows "length corr_pvals = length results
       \<and> map feature df_out = index
       \<and> map (\<lambda>r. (p_val r, osc_type r, parameters r)) df_out = results
       \<and> map corr_p_val df_out = corr_pvals"
proof -
  have len: "length corr_pvals = length results"
    and d: "df_out = map (\<lambda>(name, (p, osc, ps), cp).
                       \<lparr>feature = name, p_val = p, corr_p_val = cp, osc_type = osc,
                        parameters = ps\<rparr>)
                    (zip index (zip results corr_pvals))"
    using assms(1) by (auto simp: make_df_out_def split: if_splits)
  have a: "map feature df_out = map fst (zip index (zip results corr_pvals))"
    unfolding d by (simp add: case_prod_beta comp_def)
  have b: "map (\<lambda>r. (p_val r, osc_type r, parameters r)) df_out
         = map fst (map snd (zip index (zip results corr_pvals)))"
    unfolding d by (simp add: case_prod_beta comp_def)
  have c: "map corr_p_val df_out = map snd (map snd (zip index (zip results corr_pvals)))"
    unfolding d by (simp add: case_prod_beta comp_def)
  show ?thesis using a b c len assms(2) by simp
qed

lemma get_pycycle_Inr:
  assumes "get_pycycle L df = Inr out"
  shows "\<exists>results df_out by_p.
           \<not> iloc_0_0_raises df
         \<and> pycycle_loop L (df_rows df) = Inr results
         \<and> make_df_out (df_index df) results (multipletests L (map fst results)) = Inr df_out
         \<and> sort_values L p_val df_out = Inr by_p
         \<and> sort_values L corr_p_val by_p = Inr out"
  using assms by (auto simp: get_pycycle_def Let_def split: if_splits sum.splits)

lemma pycycle_loop_length:
  "pycycle_loop L rows = Inr results \<Longrightarrow> length results = length rows"
  using pycycle_loop_Inr [of L rows results] by (simp add: list_all2_lengthD)

lemma fge_not_flt: "fge p q \<Longrightarrow> \<not> flt p q"
  by (cases p; cases q) (auto simp: fge_def fle_def)

lemma process_row_Inr:
  assumes "process_row L df_row = Inr (p, osc, ps)"
  shows "\<exists>w c f. fit_best_waveform L df_row = Inr (w, ps, c, f)
           \<and> p = snd (kendalltau L f (amplitudes df_row))
           \<and> (if flt p (Fin 0.05)
               then (if w = ''harmonic_oscillator''
                     then (\<exists>gamma. params_1 ps = Inr gamma \<and> osc = Category (categorize_rhythm gamma))
                     else osc = Category w)
               else osc = No_call)"
  using assms by (auto simp: process_row_def split: sum.splits prod.splits if_splits)

text \<open>
  C6.  Every row of the output table comes from one feature row of the input: its
  p-value is the Kendall p-value between the fitted values of the winning model and the
  observed values, and its parameters are those of the winning model.  If that p-value
  is at least 0.05 the category of the row is the no-call marker, whichever waveform
  won and whatever its parameters; a row has a category other than no call only if its
  p-value is strictly below 0.05.
\<close>

theorem significance_gating:
  assumes "get_pycycle L df = Inr out" and "r \<in> set out"
  shows "\<exists>df_row w c f. df_row \<in> set (df_rows df)
      \<and> fit_best_waveform L df_row = Inr (w, parameters r, c, f)
      \<and> p_val r = snd (kendalltau L f (amplitudes df_row))
      \<and> (fge (p_val r) (Fin 0.05) \<longrightarrow> osc_type r = No_call)
      \<and> (osc_type r \<noteq> No_call \<longrightarrow> flt (p_val r) (Fin 0.05))"
proof -
  obtain results df_out by_p where g:
    "pycycle_loop L (df_rows df) = Inr results"
    "make_df_out (df_index df) results (multipletests L (map fst results)) = Inr df_out"
    "sort_values L p_val df_out = Inr by_p"
    "sort_values L corr_p_val by_p = Inr out"
    using get_pycycle_Inr [OF assms(1)] by blast
  have len: "length results = length (df_rows df)" using pycycle_loop_length [OF g(1)] .
  have m: "map (\<lambda>r. (p_val r, osc_type r, parameters r)) df_out = results"
    using make_df_out_Inr [OF g(2)] len by (simp add: df_index_length)
  have "r \<in> set df_out"
    using assms(2) sort_values_subset [OF g(4)] sort_values_subset [OF g(3)] by blast
  then obtain i where i: "i < length df_out" "df_out ! i = r"
    by (auto simp: in_set_conv_nth)
  have li: "i < length results" using i(1) m by (metis length_map)
  have ri: "results ! i = (p_val r, osc_type r, parameters r)"
    using m i nth_map [of i df_out "\<lambda>r. (p_val r, osc_type r, parameters r)"] by simp
  have "process_row L (df_rows df ! i) = Inr (results ! i)"
    using pycycle_loop_Inr [OF g(1)] li by (simp add: list_all2_conv_all_nth)
  then have pr: "process_row L (df_rows df ! i) = Inr (p_val r, osc_type r, parameters r)"
    using ri by simp
  have mem: "df_rows df ! i \<in> set (df_rows df)" using li len by simp
  obtain w c f where w: "fit_best_waveform L (df_rows df ! i) = Inr (w, parameters r, c, f)"
    "p_val r = snd (kendalltau L f (amplitudes (df_rows df ! i)))"
    "if flt (p_val r) (Fin 0.05)
     then (if w = ''harmonic_oscillator''
           then (\<exists>gamma. params_1 (parameters r) = Inr gamma
                   \<and> osc_type r = Category (categorize_rhythm gamma))
           else osc_type r = Category w)
     else osc_type r = No_call"
    using process_row_Inr [OF pr] by blast
  have a: "fge (p_val r) (Fin 0.05) \<longrightarrow> osc_type r = No_call"
    using w(3) fge_not_flt by (auto split: if_splits)
  have b: "osc_type r \<noteq> No_call \<longrightarrow> flt (p_val r) (Fin 0.05)"
    using w(3) by (auto split: if_splits)
  show ?thesis using mem w(1,2) a b by blast
qed

lemma process_row_nonempty:
  assumes "constant_input_not_significant L" and "df_row \<noteq> []"
  shows "\<exists>x. process_row L df_row = Inr x"
proof -
  obtain h s c t where "model_fits L df_row = Inr (h, s, c, t)"
    using model_fits_nonempty [OF assms(2)] by blast
  then show ?thesis using process_row_returns [OF assms(1)] by blast
qed

text \<open>
  C9.  Whenever the pipeline returns a table, the table has as many rows as the input
  has feature rows, and its Feature column holds the feature identifiers of the input
  (the first column, or the row numbers when the first column is not textual), each as
  often as the input does, so exactly once when the input names no feature twice.  It
  does return a table for every input that has a row, a column and no empty feature
  row, when the libraries behave as documented.  Of \<open>argsort\<close> this uses only that
  it returns a permutation of the positions.
\<close>

theorem output_is_complete:
  assumes "argsort_permutes L"
  shows "(\<forall>out. get_pycycle L df = Inr out
            \<longrightarrow> length out = length (df_rows df) \<and> mset (map feature out) = mset (df_index df)
              \<and> (distinct (df_index df) \<longrightarrow> distinct (map feature out)))
       \<and> (constant_input_not_significant L \<and> correction_keeps_length L
            \<and> \<not> iloc_0_0_raises df \<and> list_all (\<lambda>df_row. df_row \<noteq> []) (df_rows df)
          \<longrightarrow> (\<exists>out. get_pycycle L df = Inr out))"
proof -
  have a: "\<forall>out. get_pycycle L df = Inr out
            \<longrightarrow> length out = length (df_rows df) \<and> mset (map feature out) = mset (df_index df)
              \<and> (distinct (df_index df) \<longrightarrow> distinct (map feature out))"
  proof (intro allI impI)
    fix out assume o: "get_pycycle L df = Inr out"
    obtain results df_out by_p where g:
      "pycycle_loop L (df_rows df) = Inr results"
      "make_df_out (df_index df) results (multipletests L (map fst results)) = Inr df_out"
      "sort_values L p_val df_out = Inr by_p"
      "sort_values L corr_p_val by_p = Inr out"
      using get_pycycle_Inr [OF o] by blast
    have len: "length results = length (df_rows df)" using pycycle_loop_length [OF g(1)] .
    have m: "map feature df_out = df_index df"
      using make_df_out_Inr [OF g(2)] len by (simp add: df_index_length)
    have p: "mset out = mset df_out"
      using sort_values_permutes [OF g(4) assms] sort_values_permutes [OF g(3) assms] by simp
    then have "mset (map feature out) = mset (map feature df_out)"
      by (metis mset_map)
    moreover have "length out = length df_out" using p by (metis size_mset)
    moreover have "length df_out = length (df_index df)" using m by (metis length_map)
    ultimately have e: "length out = length (df_rows df)"
      "mset (map feature out) = mset (df_index df)"
      using m by (simp_all add: df_index_length)
    have "distinct (df_index df) \<longrightarrow> distinct (map feature out)"
      using mset_eq_imp_distinct_iff [OF e(2)] by simp
    then show "length out = length (df_rows df) \<and> mset (map feature out) = mset (df_index df)
              \<and> (distinct (df_index df) \<longrightarrow> distinct (map feature out))"
      using e by simp
  qed
  have b: "constant_input_not_significant L \<and> correction_keeps_length L
            \<and> \<not> iloc_0_0_raises df \<and> list_all (\<lambda>df_row. df_row \<noteq> []) (df_rows df)
          \<longrightarrow> (\<exists>out. get_pycycle L df = Inr out)"
  proof
    assume h: "constant_input_not_significant L \<and> correction_keeps_length L
            \<and> \<not> iloc_0_0_raises df \<and> list_all (\<lambda>df_row. df_row \<noteq> []) (df_rows df)"
    then have "list_all (\<lambda>r. \<exists>x. process_row L r = Inr x) (df_rows df)"
      using process_row_nonempty [of L] by (simp add: list_all_iff)
    then obtain results where r: "pycycle_loop L (df_rows df) = Inr results"
      using pycycle_loop_returns by blast
    have "length (multipletests L (map fst results)) = length results"
      using h by (simp add: correction_keeps_length_def)
    then obtain df_out where d:
      "make_df_out (df_index df) results (multipletests L (map fst results)) = Inr df_out"
      by (simp add: make_df_out_def)
    obtain by_p where s1: "sort_values L p_val df_out = Inr by_p"
      using sort_values_returns [OF assms] by blast
    obtain out where s2: "sort_values L corr_p_val by_p = Inr out"
      using sort_values_returns [OF assms] by blast
    have "get_pycycle L df = Inr out"
      using h r d s1 s2 by (simp add: get_pycycle_def Let_def)
    then show "\<exists>out. get_pycycle L df = Inr out" by blast
  qed
  show ?thesis using a b by blast
qed


lemma mset_insort_by: "mset (insort_by before ks i js) = add_mset i (mset js)"
  by (induction js) auto

lemma mset_foldl_insort_by:
  "mset (foldl (\<lambda>acc i. insort_by before ks i acc) acc is) = mset acc + mset is"
  by (induction "is" arbitrary: acc) (auto simp: mset_insort_by)

lemma argsort_by_permutes: "mset (argsort_by before ks) = mset [0..<length ks]"
  unfolding argsort_by_def mset_foldl_insort_by by simp

lemma insertion_argsort_permutes: "mset (insertion_argsort ks) = mset [0..<length ks]"
  by (simp add: insertion_argsort_def argsort_by_permutes)

lemma flat_argsort_permutes: "argsort_permutes flat_library"
  by (simp add: argsort_permutes_def flat_library_def insertion_argsort_permutes)

lemma failing_argsort_permutes: "argsort_permutes failing_library"
  by (simp add: argsort_permutes_def failing_library_def insertion_argsort_permutes)

lemma flat_best_example:
  "fit_best_waveform flat_library example_row
     = Inr (''square_waveform'', Params [Fin 0, Fin 0, Fin 0.5, Fin 0, Fin 2], Cov [],
            [Fin 2, Fin 2, Fin 2, Fin 2])"
  by (simp add: fit_best_waveform_def flat_model_fits select_best_def sse_values_def
      fit_fallback_def flat_fit_def fge_def fle_def)

lemma flat_process_example:
  "process_row flat_library example_row
     = Inr (Fin 0.01, Category ''square_waveform'', Params [Fin 0, Fin 0, Fin 0.5, Fin 0, Fin 2])"
  unfolding process_row_def flat_best_example
  by (simp add: flat_library_def)

lemma single_extremes:
  "np_max (amplitudes single_column_row) = Inr (Fin 1)"
  "np_min (amplitudes single_column_row) = Inr (Fin 1)"
  by (simp_all add: amplitudes_def single_column_row_def)

lemma timepoints_single: "timepoints single_column_row = [Fin 0]"
  by (simp add: timepoints_def single_column_row_def)

lemma amplitudes_single: "amplitudes single_column_row = [Fin 1]"
  by (simp add: amplitudes_def single_column_row_def)

lemma flat_model_fits_single:
  "model_fits flat_library single_column_row
     = Inr (fit_fallback single_column_row, flat_fit_single, flat_fit_single,
            fit_fallback single_column_row)"
  by (simp add: model_fits_def single_extremes try_fit_def fit_body_def flat_library_def
      harmonic_args_def square_args_def cycloid_args_def transient_args_def
      timepoints_single amplitudes_single pseudo_square_wave_def pseudo_cycloid_wave_def
      fsub_def fsum_def flat_fit_single_def)

lemma flat_process_single:
  "process_row flat_library single_column_row
     = Inr (Fin 1, No_call, Params [Fin 0, Fin 0, Fin 0.5, Fin 0, Fin 2])"
proof -
  have "fit_best_waveform flat_library single_column_row
     = Inr (''square_waveform'', Params [Fin 0, Fin 0, Fin 0.5, Fin 0, Fin 2], Cov [], [Fin 2])"
    by (simp add: fit_best_waveform_def flat_model_fits_single select_best_def sse_values_def
        fit_fallback_def flat_fit_single_def fge_def fle_def)
  then show ?thesis
    unfolding process_row_def by (simp add: flat_library_def)
qed

lemma flat_get_pycycle:
  "get_pycycle flat_library example_table = Inr example_output"
proof -
  have loop: "pycycle_loop flat_library (df_rows example_table)
      = Inr [(Fin 1, No_call, Params [Fin 0, Fin 0, Fin 0.5, Fin 0, Fin 2]),
             (Fin 0.01, Category ''square_waveform'', Params [Fin 0, Fin 0, Fin 0.5, Fin 0, Fin 2])]"
    by (simp add: example_table_def flat_process_example flat_process_single)
  have mt: "multipletests flat_library = (\<lambda>ps. ps)" and as: "argsort flat_library = insertion_argsort"
    by (simp_all add: flat_library_def)
  have r: "\<not> iloc_0_0_raises example_table" by (simp add: example_table_def)
  have ix: "df_index example_table = [Feature_name ''gene_b'', Feature_name ''gene_a'']"
    by (simp add: example_table_def)
  show ?thesis
    unfolding get_pycycle_def Let_def loop mt ix
    using r
    by (simp add: make_df_out_def sort_values_def nargsort_def as insertion_argsort_def
        argsort_by_def example_output_def Let_def)
qed


lemma flat_keeps_length: "correction_keeps_length flat_library"
  by (simp add: correction_keeps_length_def flat_library_def)

theorem significance_gating_witness:
  "get_pycycle flat_library example_table = Inr example_output
   \<and> p_val (example_output ! 1) = Fin 1
   \<and> fge (Fin 1) (Fin 0.05)
   \<and> osc_type (example_output ! 1) = No_call
   \<and> osc_type (example_output ! 0) = Category ''square_waveform''
   \<and> flt (p_val (example_output ! 0)) (Fin 0.05)"
proof -
  have m0: "example_output ! 0 \<in> set example_output" and m1: "example_output ! 1 \<in> set example_output"
    by (simp_all add: example_output_def)
  have p1: "p_val (example_output ! 1) = Fin 1" and ge: "fge (Fin 1) (Fin 0.05)"
    and o0: "osc_type (example_output ! 0) = Category ''square_waveform''"
    by (simp_all add: example_output_def fge_def fle_def)
  have "osc_type (example_output ! 1) = No_call"
    using significance_gating [OF flat_get_pycycle m1] p1 ge by auto
  moreover have "flt (p_val (example_output ! 0)) (Fin 0.05)"
    using significance_gating [OF flat_get_pycycle m0] o0 by auto
  ultimately show ?thesis using flat_get_pycycle p1 ge o0 by simp
qed

theorem output_is_complete_witness:
  "argsort_permutes flat_library
   \<and> get_pycycle flat_library example_table = Inr example_output
   \<and> length example_output = length (df_rows example_table)
   \<and> mset (map feature example_output) = mset (df_index example_table)
   \<and> distinct (df_index example_table)
   \<and> distinct (map feature example_output)
   \<and> (\<exists>out. get_pycycle flat_library example_table = Inr out)"
proof -
  have wf: "\<not> iloc_0_0_raises example_table
            \<and> list_all (\<lambda>df_row. df_row \<noteq> []) (df_rows example_table)"
    by (simp add: example_table_def example_row_def single_column_row_def)
  have dd: "distinct (df_index example_table)"
    by (simp add: example_table_def)
  show ?thesis
    using output_is_complete [OF flat_argsort_permutes, of example_table]
      flat_argsort_permutes flat_get_pycycle flat_contract flat_keeps_length wf dd
    by blast
qed

section \<open>The order of the output\<close>

lemma fle_not_flt: "fle a b \<Longrightarrow> \<not> flt b a"
  by (cases a; cases b) (auto simp: fle_def)

lemma not_flt_fle: "\<not> isnan a \<Longrightarrow> \<not> isnan b \<Longrightarrow> \<not> flt a b \<Longrightarrow> fle b a"
  by (cases a; cases b) (auto simp: fle_def)

lemma not_fle_fle: "\<not> isnan a \<Longrightarrow> \<not> isnan b \<Longrightarrow> \<not> fle a b \<Longrightarrow> fle b a"
  by (cases a; cases b) (auto simp: fle_def)

lemma set_insort_by: "set (insort_by before ks i js) = insert i (set js)"
  by (induction js) auto

lemma sorted_insort_by:
  assumes before_le: "\<And>a b. before a b \<Longrightarrow> fle a b"
    and not_before: "\<And>a b. \<not> isnan a \<Longrightarrow> \<not> isnan b \<Longrightarrow> \<not> before a b \<Longrightarrow> fle b a"
    and keys: "list_all (\<lambda>x. \<not> isnan x) ks"
    and i: "i < length ks"
    and js: "list_all (\<lambda>j. j < length ks) js"
    and sorted: "sorted_wrt (\<lambda>i j. fle (ks ! i) (ks ! j)) js"
  shows "sorted_wrt (\<lambda>i j. fle (ks ! i) (ks ! j)) (insort_by before ks i js)"
  using js sorted
proof (induction js)
  case Nil
  then show ?case by simp
next
  case (Cons j js)
  have ni: "\<not> isnan (ks ! i)" using keys i by (simp add: list_all_length)
  have "j < length ks" using Cons.prems(1) by simp
  then have nj: "\<not> isnan (ks ! j)" using keys by (simp add: list_all_length)
  show ?case
  proof (cases "before (ks ! i) (ks ! j)")
    case True
    then have ij: "fle (ks ! i) (ks ! j)" by (rule before_le)
    have "\<forall>x\<in>set js. fle (ks ! i) (ks ! x)"
      using Cons.prems(2) ij fle_trans by auto
    then show ?thesis using True ij Cons.prems(2) by simp
  next
    case False
    then have ji: "fle (ks ! j) (ks ! i)" using not_before [OF ni nj] by simp
    have "sorted_wrt (\<lambda>i j. fle (ks ! i) (ks ! j)) (insort_by before ks i js)"
      using Cons.IH Cons.prems by simp
    then show ?thesis using False ji Cons.prems(2) by (simp add: set_insort_by)
  qed
qed

lemma foldl_insort_by_sorted:
  assumes before_le: "\<And>a b. before a b \<Longrightarrow> fle a b"
    and not_before: "\<And>a b. \<not> isnan a \<Longrightarrow> \<not> isnan b \<Longrightarrow> \<not> before a b \<Longrightarrow> fle b a"
    and keys: "list_all (\<lambda>x. \<not> isnan x) ks"
  shows "list_all (\<lambda>j. j < length ks) todo \<Longrightarrow> list_all (\<lambda>j. j < length ks) acc
     \<Longrightarrow> sorted_wrt (\<lambda>i j. fle (ks ! i) (ks ! j)) acc
     \<Longrightarrow> sorted_wrt (\<lambda>i j. fle (ks ! i) (ks ! j))
           (foldl (\<lambda>acc i. insort_by before ks i acc) acc todo)"
proof (induction todo arbitrary: acc)
  case Nil
  then show ?case by simp
next
  case (Cons i todo)
  have a: "sorted_wrt (\<lambda>i j. fle (ks ! i) (ks ! j)) (insort_by before ks i acc)"
    using sorted_insort_by [OF before_le not_before keys, where i = i and js = acc] Cons.prems
    by simp
  have b: "list_all (\<lambda>j. j < length ks) (insort_by before ks i acc)"
    using Cons.prems by (simp add: list_all_iff set_insort_by)
  show ?case using Cons.IH [OF _ b a] Cons.prems(1) by simp
qed

lemma argsort_by_ascends:
  assumes before_le: "\<And>a b. before a b \<Longrightarrow> fle a b"
    and not_before: "\<And>a b. \<not> isnan a \<Longrightarrow> \<not> isnan b \<Longrightarrow> \<not> before a b \<Longrightarrow> fle b a"
    and keys: "list_all (\<lambda>x. \<not> isnan x) ks"
  shows "sorted_wrt (\<lambda>i j. fle (ks ! i) (ks ! j)) (argsort_by before ks)"
  unfolding argsort_by_def
  using foldl_insort_by_sorted [OF before_le not_before keys,
      where todo = "[0..<length ks]" and acc = "[]"]
  by (simp add: list_all_iff)

lemma insertion_argsort_ascends:
  assumes "list_all (\<lambda>x. \<not> isnan x) ks"
  shows "sorted_wrt (\<lambda>i j. fle (ks ! i) (ks ! j)) (insertion_argsort ks)"
  unfolding insertion_argsort_def
  using argsort_by_ascends [where before = flt and ks = ks, OF flt_imp_fle not_flt_fle assms]
  by blast

lemma flat_argsort_ascends: "argsort_ascends flat_library"
  by (simp add: argsort_ascends_def flat_library_def insertion_argsort_ascends)

lemma sort_values_keys:
  assumes "sort_values L by_col df_out = Inr sorted_out"
  shows "map by_col sorted_out
       = map (\<lambda>j. filter (\<lambda>v. \<not> isnan v) (map by_col df_out) ! j)
             (argsort L (filter (\<lambda>v. \<not> isnan v) (map by_col df_out)))
         @ filter isnan (map by_col df_out)
       \<and> list_all (\<lambda>j. j < length (filter (\<lambda>v. \<not> isnan v) (map by_col df_out)))
            (argsort L (filter (\<lambda>v. \<not> isnan v) (map by_col df_out)))"
proof -
  obtain indexer where i: "nargsort L (map by_col df_out) = Inr indexer"
    "list_all (\<lambda>i. i < length df_out) indexer"
    "sorted_out = map (\<lambda>i. df_out ! i) indexer"
    using sort_values_Inr [OF assms] by blast
  have "map by_col sorted_out = map (\<lambda>i. map by_col df_out ! i) indexer"
    using i(2,3) by (simp add: list_all_iff)
  then have a: "map by_col sorted_out
       = map (\<lambda>j. filter (\<lambda>v. \<not> isnan v) (map by_col df_out) ! j)
             (argsort L (filter (\<lambda>v. \<not> isnan v) (map by_col df_out)))
         @ filter isnan (map by_col df_out)"
    using nargsort_keys [OF i(1)] by simp
  have "list_all (\<lambda>j. j < length (filter (\<lambda>v. \<not> isnan v) (map by_col df_out)))
            (argsort L (filter (\<lambda>v. \<not> isnan v) (map by_col df_out)))"
    using nargsort_Inr [OF i(1)] by blast
  then show ?thesis using a by simp
qed

lemma sort_values_ascends:
  assumes "sort_values L by_col df_out = Inr sorted_out" and "argsort_ascends L"
  shows "\<exists>n. list_all (\<lambda>r. \<not> isnan (by_col r)) (take n sorted_out)
           \<and> sorted_wrt (\<lambda>a b. fle (by_col a) (by_col b)) (take n sorted_out)
           \<and> list_all (\<lambda>r. isnan (by_col r)) (drop n sorted_out)"
proof -
  let ?vals = "filter (\<lambda>v. \<not> isnan v) (map by_col df_out)"
  let ?A = "map (\<lambda>j. ?vals ! j) (argsort L ?vals)"
  let ?B = "filter isnan (map by_col df_out)"
  have k: "map by_col sorted_out = ?A @ ?B"
    and r: "list_all (\<lambda>j. j < length ?vals) (argsort L ?vals)"
    using sort_values_keys [OF assms(1)] by simp_all
  have nn: "list_all (\<lambda>x. \<not> isnan x) ?vals" by (simp add: list_all_iff)
  then have "sorted_wrt (\<lambda>i j. fle (?vals ! i) (?vals ! j)) (argsort L ?vals)"
    using assms(2) unfolding argsort_ascends_def by blast
  then have sA: "sorted_wrt fle ?A" by (simp add: sorted_wrt_map)
  have "\<And>j. j < length ?vals \<Longrightarrow> \<not> isnan (?vals ! j)"
    using nn by (simp add: list_all_length)
  then have nA: "list_all (\<lambda>x. \<not> isnan x) ?A"
    using r by (simp add: list_all_iff)
  have nB: "list_all isnan ?B" by (simp add: list_all_iff)
  let ?n = "length ?A"
  have "map by_col (take ?n sorted_out) = take ?n (map by_col sorted_out)"
    by (rule take_map [symmetric])
  also have "\<dots> = ?A" unfolding k by simp
  finally have t: "map by_col (take ?n sorted_out) = ?A" .
  have "map by_col (drop ?n sorted_out) = drop ?n (map by_col sorted_out)"
    by (rule drop_map [symmetric])
  also have "\<dots> = ?B" unfolding k by simp
  finally have d: "map by_col (drop ?n sorted_out) = ?B" .
  have "list_all (\<lambda>x. \<not> isnan x) (map by_col (take ?n sorted_out))"
    unfolding t by (rule nA)
  then have 1: "list_all (\<lambda>r. \<not> isnan (by_col r)) (take ?n sorted_out)"
    by (simp only: list.pred_map comp_def)
  have "sorted_wrt fle (map by_col (take ?n sorted_out))"
    unfolding t by (rule sA)
  then have 2: "sorted_wrt (\<lambda>a b. fle (by_col a) (by_col b)) (take ?n sorted_out)"
    by (simp only: sorted_wrt_map)
  have "list_all isnan (map by_col (drop ?n sorted_out))"
    unfolding d by (rule nB)
  then have 3: "list_all (\<lambda>r. isnan (by_col r)) (drop ?n sorted_out)"
    by (simp only: list.pred_map comp_def)
  from 1 2 3 show ?thesis by (intro exI [of _ ?n] conjI)
qed

lemma not_flt_NaN: "isnan b \<Longrightarrow> \<not> flt b a"
  by (cases b) auto

lemma all_nan_non_decreasing:
  "list_all (\<lambda>r. isnan (by_col r)) ys \<Longrightarrow> sorted_wrt (\<lambda>a b. \<not> flt (by_col b) (by_col a)) ys"
  by (induction ys) (auto simp: list_all_iff not_flt_NaN)

lemma nan_last_non_decreasing:
  assumes "sorted_wrt (\<lambda>a b. fle (by_col a) (by_col b)) (take n xs)"
    and "list_all (\<lambda>r. isnan (by_col r)) (drop n xs)"
  shows "sorted_wrt (\<lambda>a b. \<not> flt (by_col b) (by_col a)) xs"
proof -
  have a: "sorted_wrt (\<lambda>a b. \<not> flt (by_col b) (by_col a)) (take n xs)"
    using assms(1) by (rule sorted_wrt_mono_rel [rotated]) (simp add: fle_not_flt)
  have b: "sorted_wrt (\<lambda>a b. \<not> flt (by_col b) (by_col a)) (drop n xs)"
    using assms(2) by (rule all_nan_non_decreasing)
  have c: "\<forall>x\<in>set (take n xs). \<forall>y\<in>set (drop n xs). \<not> flt (by_col y) (by_col x)"
    using assms(2) by (auto simp: list_all_iff not_flt_NaN)
  have "sorted_wrt (\<lambda>a b. \<not> flt (by_col b) (by_col a)) (take n xs @ drop n xs)"
    unfolding sorted_wrt_append using a b c by blast
  then show ?thesis by simp
qed

text \<open>
  The sort law, which is the first half of C8.  Whenever the pipeline returns a table, its
  rows are in non-decreasing order of corrected p-value: no row has a corrected p-value
  below that of an earlier row; the rows with a corrected p-value come first, in
  ascending order, and the rows whose corrected p-value is NaN come last.  This uses of
  \<open>argsort\<close> only that the values at the positions it returns ascend.

  The second half of C8, that rows with equal corrected p-value stay in ascending order of
  raw p-value, would follow in the same way from a stable \<open>argsort\<close>.  The program does
  sort by raw p-value first, but it calls the second \<open>sort_values\<close> with the default
  algorithm, \<open>quicksort\<close>, which is not stable: the order among rows with equal
  corrected p-value is the order in which \<open>argsort\<close> happens to return their positions.
\<close>

theorem output_sorted_by_corrected_p_value:
  assumes "argsort_ascends L" and "get_pycycle L df = Inr out"
  shows "sorted_wrt (\<lambda>a b. \<not> flt (corr_p_val b) (corr_p_val a)) out
       \<and> (\<exists>n. list_all (\<lambda>r. \<not> isnan (corr_p_val r)) (take n out)
              \<and> sorted_wrt (\<lambda>a b. fle (corr_p_val a) (corr_p_val b)) (take n out)
              \<and> list_all (\<lambda>r. isnan (corr_p_val r)) (drop n out))"
proof -
  obtain by_p where s: "sort_values L corr_p_val by_p = Inr out"
    using get_pycycle_Inr [OF assms(2)] by blast
  obtain n where n: "list_all (\<lambda>r. \<not> isnan (corr_p_val r)) (take n out)"
    "sorted_wrt (\<lambda>a b. fle (corr_p_val a) (corr_p_val b)) (take n out)"
    "list_all (\<lambda>r. isnan (corr_p_val r)) (drop n out)"
    using sort_values_ascends [OF s assms(1)] by blast
  have "sorted_wrt (\<lambda>a b. \<not> flt (corr_p_val b) (corr_p_val a)) out"
    using nan_last_non_decreasing [OF n(2) n(3)] .
  then show ?thesis using n by blast
qed

theorem output_sorted_by_corrected_p_value_witness:
  "argsort_ascends flat_library
   \<and> get_pycycle flat_library example_table = Inr example_output
   \<and> sorted_wrt (\<lambda>a b. \<not> flt (corr_p_val b) (corr_p_val a)) example_output
   \<and> map corr_p_val example_output = [Fin 0.01, Fin 1]"
  using output_sorted_by_corrected_p_value [OF flat_argsort_ascends flat_get_pycycle]
    flat_argsort_ascends flat_get_pycycle
  by (simp add: example_output_def)

end
